theory Spec2Isabelle
  imports Main "HOL-Library.Word"
begin

unbundle bit_operations_syntax

section \<open>Characters, strings and buffers\<close>

text \<open>
  The registry text routines work on \<^verbatim>\<open>WCHAR\<close> strings (16-bit code units), on
  bytes (\<^verbatim>\<open>BYTE\<close>, \<^verbatim>\<open>char\<close>) and on \<^verbatim>\<open>DWORD\<close>s. A C string is modelled by the
  list of the characters in front of its terminating NUL; a pointer into a string is the
  list of the characters from that position on. \<^verbatim>\<open>unsigned long\<close> has 32 bits, as on
  every Windows target.
\<close>

type_synonym wchar = "16 word"
type_synonym byte = "8 word"
type_synonym dword = "32 word"
type_synonym wstr = "wchar list"

definition W :: "string \<Rightarrow> wstr" where
  "W s = map of_char s"

definition cstr :: "'a::zero list \<Rightarrow> 'a list" where
  \<comment> \<open>what the string functions see of a buffer: the characters before the first NUL\<close>
  "cstr buf = takeWhile (\<lambda>c. c \<noteq> 0) buf"

definition blank :: "wchar \<Rightarrow> bool" where
  \<comment> \<open>the test \<^verbatim>\<open>c == ' ' || c == '\t'\<close>\<close>
  "blank c \<longleftrightarrow> c = 0x20 \<or> c = 0x09"

text \<open>
  The header \<^verbatim>\<open>wine/unicode.h\<close> (\<^verbatim>\<open>isspaceW\<close>, \<^verbatim>\<open>isxdigitW\<close>, \<^verbatim>\<open>tolowerW\<close>,
  \<^verbatim>\<open>strtoulW\<close>) and the C library (\<^verbatim>\<open>wcstoul\<close>) are not among the sources. The
  character classes are modelled on the ASCII range, as in the C locale, and the
  conversion as ISO C specifies \<^verbatim>\<open>strtoul\<close> for base 16.
\<close>

definition isspaceW :: "wchar \<Rightarrow> bool" where
  "isspaceW c \<longleftrightarrow> c = 0x20 \<or> (0x09 \<le> c \<and> c \<le> 0x0d)"

definition isxdigitW :: "wchar \<Rightarrow> bool" where
  "isxdigitW c \<longleftrightarrow> (0x30 \<le> c \<and> c \<le> 0x39) \<or> (0x41 \<le> c \<and> c \<le> 0x46) \<or> (0x61 \<le> c \<and> c \<le> 0x66)"

definition tolowerW :: "wchar \<Rightarrow> wchar" where
  "tolowerW c = (if 0x41 \<le> c \<and> c \<le> 0x5a then c + 0x20 else c)"

definition xdigit_val :: "wchar \<Rightarrow> int" where
  \<comment> \<open>the value of a hexadecimal digit\<close>
  "xdigit_val c = (if 0x30 \<le> c \<and> c \<le> 0x39 then uint c - 0x30
                   else if 0x41 \<le> c \<and> c \<le> 0x46 then uint c - 0x41 + 10
                   else uint c - 0x61 + 10)"

fun strtoul_digits :: "wstr \<Rightarrow> int \<Rightarrow> nat \<Rightarrow> int \<times> nat" where
  \<comment> \<open>the digits of the subject sequence: the value read so far and the number of
      characters taken\<close>
  "strtoul_digits [] acc n = (acc, n)"
| "strtoul_digits (c # cs) acc n =
     (if isxdigitW c then strtoul_digits cs (16 * acc + xdigit_val c) (Suc n) else (acc, n))"

record strtoul_result =
  value_of :: dword       \<comment> \<open>the value returned\<close>
  used :: nat             \<comment> \<open>\<^verbatim>\<open>end - nptr\<close>: 0 when no conversion was performed\<close>
  erange :: bool          \<comment> \<open>whether \<^verbatim>\<open>errno\<close> was set to \<^verbatim>\<open>ERANGE\<close>\<close>

definition nthc :: "'a::zero list \<Rightarrow> nat \<Rightarrow> 'a" where
  \<comment> \<open>\<^verbatim>\<open>s[i]\<close> for \<open>i\<close> up to the length of the string: the last one is the terminator\<close>
  "nthc s i = (if i < length s then s ! i else 0)"

definition strtoul16 :: "wstr \<Rightarrow> strtoul_result" where
  \<comment> \<open>white space, a sign, \<^verbatim>\<open>0x\<close> when a digit follows it, and the digits\<close>
  "strtoul16 nptr =
     (let ws = length (takeWhile isspaceW nptr);
          s1 = drop ws nptr;
          neg = (nthc s1 0 = 0x2d);
          sg = (if nthc s1 0 = 0x2d \<or> nthc s1 0 = 0x2b then 1 else 0);
          s2 = drop sg s1;
          px = (if nthc s2 0 = 0x30 \<and> (nthc s2 1 = 0x78 \<or> nthc s2 1 = 0x58) \<and> isxdigitW (nthc s2 2)
                then 2 else 0);
          v = fst (strtoul_digits (drop px s2) 0 0);
          n = snd (strtoul_digits (drop px s2) 0 0)
      in if n = 0 then \<lparr>value_of = 0, used = 0, erange = False\<rparr>
         else if v > 0xffffffff then \<lparr>value_of = 0xffffffff, used = ws + sg + px + n, erange = True\<rparr>
         else \<lparr>value_of = (if neg then - of_int v else of_int v), used = ws + sg + px + n,
                erange = False\<rparr>)"

section \<open>The parser context and its surroundings\<close>

text \<open>
  What lies outside the text routines is taken as it is used. The registry is a value of
  an arbitrary type \<open>'r\<close> with handles \<open>'h\<close>; the calls made on it and the two
  code-page conversions are the fields of \<open>winapi\<close>, so that every result below holds
  for any registry and any ANSI code page. A handle or pointer that may be \<^verbatim>\<open>NULL\<close> is an
  \<open>option\<close>. Console messages (\<^verbatim>\<open>output_message\<close>) are not modelled, and allocations
  succeed (\<^verbatim>\<open>CHECK_ENOUGH_MEMORY\<close> never fires).

  In four places the code reads memory that it has not written: the data buffer of the
  export behind the data of a value, the string at a heap block of no bytes, the line
  buffer behind the terminator of a string, and the byte in front of a heap block. C
  leaves open what is found there and the run goes on with it, so these four are part of
  the surroundings as well (the last four fields of \<open>winapi\<close>).
\<close>

datatype hkey_class =
  HKEY_LOCAL_MACHINE | HKEY_USERS | HKEY_CLASSES_ROOT
| HKEY_CURRENT_CONFIG | HKEY_CURRENT_USER | HKEY_DYN_DATA

record ('r, 'h) winapi =
  RegCreateKeyExW :: "'r \<Rightarrow> hkey_class \<Rightarrow> wstr option \<Rightarrow> 'h option \<times> 'r"
    \<comment> \<open>the handle when the result is \<^verbatim>\<open>ERROR_SUCCESS\<close>\<close>
  RegCloseKey :: "'r \<Rightarrow> 'h \<Rightarrow> 'r"
  RegSetValueExW :: "'r \<Rightarrow> 'h option \<Rightarrow> wstr option \<Rightarrow> dword \<Rightarrow> byte list \<Rightarrow> 'r"
  RegDeleteValueW :: "'r \<Rightarrow> 'h option \<Rightarrow> wstr option \<Rightarrow> 'r"
  RegDeleteTreeW :: "'r \<Rightarrow> hkey_class \<Rightarrow> wstr \<Rightarrow> 'r"
  MultiByteToWideChar :: "byte list \<Rightarrow> wstr"
    \<comment> \<open>with \<^verbatim>\<open>CP_ACP\<close>, on the bytes given\<close>
  WideCharToMultiByte :: "wstr \<Rightarrow> byte list"
  uninit_data :: "nat \<Rightarrow> byte"
    \<comment> \<open>the byte at an offset of the data buffer of \<^verbatim>\<open>export_registry_data\<close>, as long as
        \<^verbatim>\<open>RegEnumValueW\<close> has not written there\<close>
  empty_block :: wstr
    \<comment> \<open>the string that lies at a heap block of no bytes\<close>
  behind_terminator :: "wstr \<Rightarrow> wstr"
    \<comment> \<open>for a string of the line at hand: the string that lies behind its terminator\<close>
  before_block :: byte
    \<comment> \<open>the byte in front of the block that \<^verbatim>\<open>parser->data\<close> points to\<close>

datatype parser_state =
  HEADER | PARSE_WIN31_LINE | LINE_START | KEY_NAME | DELETE_KEY | DEFAULT_VALUE_NAME
| QUOTED_VALUE_NAME | DATA_START | DELETE_VALUE | DATA_TYPE | STRING_DATA | DWORD_DATA
| HEX_DATA | EOL_BACKSLASH | HEX_MULTILINE | UNKNOWN_DATA | SET_VALUE

datatype reg_versions =
  REG_VERSION_31 | REG_VERSION_40 | REG_VERSION_50 | REG_VERSION_FUZZY | REG_VERSION_INVALID

text \<open>
  \<open>parser\<close> is \<^verbatim>\<open>struct parser\<close>, together with the state the C code keeps outside of
  it: the registry, the unread rest of the file, the static variables of the two line
  readers and \<^verbatim>\<open>errno\<close>. \<open>data\<close> holds the \<^verbatim>\<open>data_size\<close> bytes of the value data (the
  size of its heap block is \<open>hex_block_size\<close> below, where it matters); \<open>reg_version\<close> is
  \<open>None\<close> for the initial \<^verbatim>\<open>-1\<close>.
\<close>

record ('r, 'h) parser =
  file_rest :: "byte list"         \<comment> \<open>\<^verbatim>\<open>file\<close>: what has not been read yet\<close>
  two_wchars :: "wchar \<times> wchar"
  is_unicode :: bool
  reg_version :: "reg_versions option"
  hkey :: "'h option"
  key_name :: "wstr option"
  value_name :: "wstr option"
  parse_type :: dword
  data_type :: dword
  data :: "byte list"
  backslash :: bool
  state :: parser_state
  registry :: 'r
  errno_range :: bool               \<comment> \<open>\<^verbatim>\<open>errno == ERANGE\<close>\<close>
  sizeA :: nat                      \<comment> \<open>\<^verbatim>\<open>size\<close> of \<^verbatim>\<open>get_lineA\<close>\<close>
  nextA :: "byte list option"       \<comment> \<open>the string at \<^verbatim>\<open>next\<close> of \<^verbatim>\<open>get_lineA\<close>\<close>
  sizeW :: nat
  nextW :: "wstr option"

abbreviation data_size :: "('r, 'h, 'z) parser_scheme \<Rightarrow> nat" where
  "data_size p \<equiv> length (data p)"

text \<open>
  The ways in which the process stops inside an import: \<^verbatim>\<open>error_exit\<close> (declared in
  \<^verbatim>\<open>regproc.h\<close>: it prints its message and ends the process), a read through a \<^verbatim>\<open>NULL\<close>
  pointer, and a write outside of the heap block at hand, after which C leaves open
  everything.
\<close>

datatype halt = Error_exit | Null_deref | Out_of_bounds

definition GetWideString :: "('r, 'h) winapi \<Rightarrow> byte list \<Rightarrow> wstr" where
  \<comment> \<open>of a NUL-terminated string; the result is read as a string again\<close>
  "GetWideString os strA = cstr (MultiByteToWideChar os strA)"

definition GetWideStringN :: "('r, 'h) winapi \<Rightarrow> byte list \<Rightarrow> wstr" where
  \<comment> \<open>of \<^verbatim>\<open>chars\<close> bytes; \<^verbatim>\<open>*len\<close> is the length of the result\<close>
  "GetWideStringN os strA = MultiByteToWideChar os strA"

definition GetMultiByteString :: "('r, 'h) winapi \<Rightarrow> wstr \<Rightarrow> byte list" where
  "GetMultiByteString os strW = cstr (WideCharToMultiByte os strW)"

definition GetMultiByteStringN :: "('r, 'h) winapi \<Rightarrow> wstr \<Rightarrow> byte list" where
  "GetMultiByteStringN os strW = WideCharToMultiByte os strW"

definition wchar_bytes :: "wchar \<Rightarrow> byte list" where
  \<comment> \<open>a \<^verbatim>\<open>WCHAR\<close> in memory, little-endian\<close>
  "wchar_bytes c = [ucast c, ucast (drop_bit 8 c)]"

definition wstr_bytes :: "wstr \<Rightarrow> byte list" where
  "wstr_bytes s = concat (map wchar_bytes s)"

fun bytes_wstr :: "byte list \<Rightarrow> wstr" where
  \<comment> \<open>the complete \<^verbatim>\<open>WCHAR\<close>s of a buffer\<close>
  "bytes_wstr (lo # hi # bs) = (ucast lo OR push_bit 8 (ucast hi)) # bytes_wstr bs"
| "bytes_wstr _ = []"

definition dword_bytes :: "dword \<Rightarrow> byte list" where
  "dword_bytes v = [ucast v, ucast (drop_bit 8 v), ucast (drop_bit 16 v), ucast (drop_bit 24 v)]"

section \<open>Data-type codec, import direction\<close>

abbreviation REG_NONE :: dword where "REG_NONE \<equiv> 0"
abbreviation REG_SZ :: dword where "REG_SZ \<equiv> 1"
abbreviation REG_EXPAND_SZ :: dword where "REG_EXPAND_SZ \<equiv> 2"
abbreviation REG_BINARY :: dword where "REG_BINARY \<equiv> 3"
abbreviation REG_DWORD :: dword where "REG_DWORD \<equiv> 4"
abbreviation REG_MULTI_SZ :: dword where "REG_MULTI_SZ \<equiv> 7"

definition convert_hex_to_dword :: "wstr \<Rightarrow> (dword \<times> wstr) option" where
  \<comment> \<open>\<^verbatim>\<open>None\<close> is \<^verbatim>\<open>FALSE\<close>; on success the value stored in \<^verbatim>\<open>*dw\<close> and the line as the
      NUL written at \<^verbatim>\<open>*end\<close> leaves it\<close>
  "convert_hex_to_dword line =
     (let str = dropWhile blank line in
      if str = [] then None
      else let count = length (takeWhile isxdigitW str);
               p = dropWhile isxdigitW str in
        if count > 8 then None
        else let p' = dropWhile blank p in
          if p' \<noteq> [] \<and> hd p' \<noteq> 0x3b then None
          else Some (value_of (strtoul16 (takeWhile isxdigitW str)),
                     takeWhile blank line @ takeWhile isxdigitW str))"

record hex_result =
  hex_ok :: bool           \<comment> \<open>the value returned\<close>
  hex_data :: "byte list"  \<comment> \<open>\<^verbatim>\<open>parser->data\<close>, \<^verbatim>\<open>parser->data_size\<close> bytes long\<close>
  hex_backslash :: bool    \<comment> \<open>\<^verbatim>\<open>parser->backslash\<close>\<close>
  hex_str :: wstr          \<comment> \<open>\<^verbatim>\<open>*str\<close>\<close>
  hex_erange :: bool       \<comment> \<open>whether \<^verbatim>\<open>strtoulW\<close> set \<^verbatim>\<open>errno\<close> to \<^verbatim>\<open>ERANGE\<close>\<close>

function hex_csv_loop :: "wstr \<Rightarrow> byte list \<Rightarrow> wstr \<Rightarrow> hex_result" where
  \<comment> \<open>the \<^verbatim>\<open>while (*s)\<close> loop of \<^verbatim>\<open>convert_hex_csv_to_hex\<close>; \<open>str\<close> is \<^verbatim>\<open>*str\<close> on entry\<close>
  "hex_csv_loop s d str =
     (if s = [] then \<lparr>hex_ok = True, hex_data = d, hex_backslash = False, hex_str = str,
              hex_erange = False\<rparr>
      else let r = strtoul16 s; wc = value_of r; en = drop (used r) s in
        if wc > 0xff then \<lparr>hex_ok = False, hex_data = d, hex_backslash = False, hex_str = str,
                             hex_erange = erange r\<rparr>
        else if used r = 0 \<and> wc = 0 then
          (let en' = dropWhile blank en in
           if en' \<noteq> [] \<and> hd en' = 0x5c
             then \<lparr>hex_ok = True, hex_data = d, hex_backslash = True, hex_str = tl en',
              hex_erange = False\<rparr>
           else if en' \<noteq> [] \<and> hd en' = 0x3b
             then \<lparr>hex_ok = True, hex_data = d, hex_backslash = False, hex_str = str,
              hex_erange = False\<rparr>
           else \<lparr>hex_ok = False, hex_data = d, hex_backslash = False, hex_str = str,
              hex_erange = False\<rparr>)
        else let d' = d @ [ucast wc] in
          if en \<noteq> [] \<and> hd en \<noteq> 0x2c then
            (let en' = dropWhile blank en in
             if en' \<noteq> [] \<and> hd en' \<noteq> 0x3b
               then \<lparr>hex_ok = False, hex_data = d', hex_backslash = False, hex_str = str,
              hex_erange = False\<rparr>
             else \<lparr>hex_ok = True, hex_data = d', hex_backslash = False, hex_str = str,
              hex_erange = False\<rparr>)
          else hex_csv_loop (if en \<noteq> [] then tl en else en) d' str)"
  by pat_completeness auto

termination hex_csv_loop
proof (relation "measure (\<lambda>(s, d, str). length s)")
  show "wf (measure (\<lambda>(s, d, str). length s))" by simp
next
  fix s :: wstr and d str :: "byte list" and str' :: wstr and r wc en d'
  assume "s \<noteq> []" and r: "r = strtoul16 s" and wc: "wc = value_of r" and en: "en = drop (used r) s"
    and "\<not> (used r = 0 \<and> wc = 0)"
  moreover have "used (strtoul16 s) = 0 \<Longrightarrow> value_of (strtoul16 s) = 0"
    by (auto simp: strtoul16_def Let_def split: if_split_asm)
  ultimately have "used r > 0" by auto
  with \<open>s \<noteq> []\<close> en have "length en < length s" by (cases s) auto
  then show "((if en \<noteq> [] then tl en else en, d', str'), s, d, str') \<in> measure (\<lambda>(s, d, str). length s)"
    by (cases en) auto
qed

declare hex_csv_loop.simps [simp del]


definition convert_hex_csv_to_hex ::
  "('r, 'h) parser \<Rightarrow> wstr \<Rightarrow> bool \<times> ('r, 'h) parser \<times> wstr" where
  \<comment> \<open>the value returned, the parser and \<^verbatim>\<open>*str\<close>\<close>
  "convert_hex_csv_to_hex p str =
     (let r = hex_csv_loop str (data p) str in
      (hex_ok r,
       p\<lparr>backslash := hex_backslash r, data := hex_data r,
         errno_range := errno_range p \<or> hex_erange r\<rparr>,
       hex_str r))"

definition data_types :: "(wstr \<times> dword option \<times> dword) list" where
  \<comment> \<open>tag, type (\<open>None\<close> for \<^verbatim>\<open>-1\<close>) and parse type; \<^verbatim>\<open>len\<close> is the length of the tag\<close>
  "data_types =
     [([0x22],      Some REG_SZ,     REG_SZ),
      (W ''hex:'',   Some REG_BINARY, REG_BINARY),
      (W ''dword:'', Some REG_DWORD,  REG_DWORD),
      (W ''hex('',   None,            REG_BINARY)]"

fun parse_data_type_loop ::
  "(wstr \<times> dword option \<times> dword) list \<Rightarrow> ('r, 'h) parser \<Rightarrow> wstr \<Rightarrow> bool \<times> ('r, 'h) parser \<times> wstr" where
  "parse_data_type_loop [] p line = (False, p, line)"
| "parse_data_type_loop ((tag, ty, pty) # ptr) p line =
     (if take (length tag) line \<noteq> tag then parse_data_type_loop ptr p line
      else let p1 = p\<lparr>parse_type := pty, data_type := pty\<rparr>;
               line1 = drop (length tag) line in
        if ty = None then
          (if line1 = [] \<or> tolowerW (nthc line1 1) = 0x78 then (False, p1, line1)
           else let r = strtoul16 line1; val = value_of r; en = drop (used r) line1;
                    p2 = p1\<lparr>errno_range := errno_range p1 \<or> erange r\<rparr> in
             if nthc en 0 \<noteq> 0x29 \<or> nthc en 1 \<noteq> 0x3a \<or> (val = 0xffffffff \<and> errno_range p2)
               then (False, p2, line1)
             else (True, p2\<lparr>data_type := val\<rparr>, drop 2 en))
        else (True, p1, line1))"

definition parse_data_type ::
  "('r, 'h) parser \<Rightarrow> wstr \<Rightarrow> bool \<times> ('r, 'h) parser \<times> wstr" where
  "parse_data_type p line = parse_data_type_loop data_types p line"

fun unescape_loop :: "wstr \<Rightarrow> wstr \<Rightarrow> wstr \<Rightarrow> bool \<times> wstr \<times> wstr" where
  \<comment> \<open>from the string behind the terminator of \<^verbatim>\<open>str\<close>, the characters from \<^verbatim>\<open>str_idx\<close>
      on and those written up to \<^verbatim>\<open>val_idx\<close>: the value returned, the characters written
      and \<^verbatim>\<open>*unparsed\<close>. After a backslash at the very end the terminator is copied, the
      loop ends with \<^verbatim>\<open>str_idx = len + 1\<close>, and the closing quote is looked for behind the
      terminator.\<close>
  "unescape_loop bh [] val = (False, val, bh)"
| "unescape_loop bh (c # cs) val =
     (if c = 0x5c then
        (case cs of
           [] \<Rightarrow> (nthc bh 0 = 0x22, val @ [0], tl bh)
         | e # es \<Rightarrow>
             unescape_loop bh es
               (val @ [if e = 0x6e then 0x0a else if e = 0x72 then 0x0d
                       else if e = 0x30 then 0 else e]))
      else if c = 0x22 then (True, val, cs)
      else unescape_loop bh cs (val @ [c]))"

definition REGPROC_unescape_string :: "('r, 'h) winapi \<Rightarrow> wstr \<Rightarrow> bool \<times> wstr \<times> wstr" where
  \<comment> \<open>the value returned, the string left at \<^verbatim>\<open>str\<close> and \<^verbatim>\<open>*unparsed\<close>. Without a
      closing quote \<^verbatim>\<open>*unparsed\<close> lies behind the terminator.\<close>
  "REGPROC_unescape_string os str =
     (case unescape_loop (behind_terminator os str) str [] of
        (ret, val, unparsed) \<Rightarrow> (ret, cstr val, unparsed))"

text \<open>
  Modelled from the spec: \<^verbatim>\<open>reg_class_namesW\<close> is declared \<^verbatim>\<open>extern\<close> and defined
  elsewhere; it holds the names of the six root classes, in the order of
  \<^verbatim>\<open>reg_class_keys\<close>.
\<close>

definition reg_class_namesW :: "wstr list" where
  "reg_class_namesW =
     [W ''HKEY_LOCAL_MACHINE'', W ''HKEY_USERS'', W ''HKEY_CLASSES_ROOT'',
      W ''HKEY_CURRENT_CONFIG'', W ''HKEY_CURRENT_USER'', W ''HKEY_DYN_DATA'']"

definition reg_class_keys :: "hkey_class list" where
  "reg_class_keys =
     [HKEY_LOCAL_MACHINE, HKEY_USERS, HKEY_CLASSES_ROOT,
      HKEY_CURRENT_CONFIG, HKEY_CURRENT_USER, HKEY_DYN_DATA]"

definition strchr_tail :: "wchar \<Rightarrow> wstr \<Rightarrow> wstr option" where
  \<comment> \<open>\<^verbatim>\<open>strchrW(s, c)\<close> and then one character on: the string behind the first \<open>c\<close>\<close>
  "strchr_tail c s = (if c \<in> set s then Some (tl (dropWhile (\<lambda>x. x \<noteq> c) s)) else None)"

fun parse_key_name_loop :: "(wstr \<times> hkey_class) list \<Rightarrow> wstr \<Rightarrow> hkey_class option" where
  "parse_key_name_loop [] kname = None"
| "parse_key_name_loop ((name, key) # rest) kname =
     (let len = length name in
      if map tolowerW (take len kname) = map tolowerW name
         \<and> (nthc kname len = 0 \<or> nthc kname len = 0x5c)
      then Some key else parse_key_name_loop rest kname)"

definition parse_key_name :: "wstr \<Rightarrow> hkey_class option \<times> wstr option" where
  \<comment> \<open>the class (\<open>None\<close> for 0) and \<^verbatim>\<open>*key_path\<close>\<close>
  "parse_key_name kname =
     (parse_key_name_loop (zip reg_class_namesW reg_class_keys) kname,
      strchr_tail 0x5c kname)"

definition close_key :: "('r, 'h) winapi \<Rightarrow> ('r, 'h) parser \<Rightarrow> ('r, 'h) parser" where
  "close_key os p =
     (case hkey p of
        None \<Rightarrow> p
      | Some h \<Rightarrow> p\<lparr>key_name := None, registry := RegCloseKey os (registry p) h, hkey := None\<rparr>)"

definition open_key :: "('r, 'h) winapi \<Rightarrow> ('r, 'h) parser \<Rightarrow> wstr \<Rightarrow> bool \<times> ('r, 'h) parser" where
  \<comment> \<open>whether the result is \<^verbatim>\<open>ERROR_SUCCESS\<close>, and the parser\<close>
  "open_key os p path =
     (let p1 = close_key os p in
      case parse_key_name path of
        (None, key_path) \<Rightarrow> (False, p1)
      | (Some key_class, key_path) \<Rightarrow>
          (case RegCreateKeyExW os (registry p1) key_class key_path of
             (Some h, r) \<Rightarrow> (True, p1\<lparr>hkey := Some h, registry := r, key_name := Some path\<rparr>)
           | (None, r) \<Rightarrow> (False, p1\<lparr>hkey := None, registry := r\<rparr>)))"

definition free_parser_data :: "('r, 'h) parser \<Rightarrow> ('r, 'h) parser" where
  "free_parser_data p = p\<lparr>data := []\<rparr>"

definition hex_block_size :: "('r, 'h) parser \<Rightarrow> wstr \<Rightarrow> nat" where
  \<comment> \<open>\<^verbatim>\<open>size\<close> in \<^verbatim>\<open>convert_hex_csv_to_hex\<close>: the size that \<^verbatim>\<open>resize_buffer\<close> gives the block
      of \<^verbatim>\<open>parser->data\<close>, from the parser and \<^verbatim>\<open>*str\<close> on entry\<close>
  "hex_block_size p str = (length str + 1) div 2 + data_size p"

definition prepare_hex_string_data ::
  "('r, 'h) winapi \<Rightarrow> bool \<Rightarrow> ('r, 'h) parser \<Rightarrow> halt + ('r, 'h) parser" where
  \<comment> \<open>\<open>room\<close>: whether the block of \<^verbatim>\<open>parser->data\<close> is larger than \<^verbatim>\<open>data_size\<close>; if it
      is not, \<^verbatim>\<open>data[parser->data_size] = 0\<close> is a write behind the block. With no data
      at all, \<^verbatim>\<open>data[parser->data_size - 1]\<close> is the byte in front of the block.\<close>
  "prepare_hex_string_data os room p =
     (if data_type p = REG_EXPAND_SZ \<or> data_type p = REG_MULTI_SZ then
        (let l = (if data p = [] then before_block os else last (data p)) in
         if l \<noteq> 0 \<and> \<not> room then Inl Out_of_bounds
         else let p1 = (if l \<noteq> 0 then p\<lparr>data := data p @ [0]\<rparr> else p) in
           if \<not> is_unicode p1
             then Inr (p1\<lparr>data := wstr_bytes (GetWideStringN os (data p1))\<rparr>)
           else Inr p1)
      else Inr p)"

definition parse_file_header :: "wstr \<Rightarrow> reg_versions" where
  "parse_file_header s0 =
     (let s = dropWhile blank s0 in
      if s = W ''REGEDIT'' then REG_VERSION_31
      else if s = W ''REGEDIT4'' then REG_VERSION_40
      else if s = W ''Windows Registry Editor Version 5.00'' then REG_VERSION_50
      else if take 7 s = W ''REGEDIT'' then REG_VERSION_FUZZY
      else REG_VERSION_INVALID)"


section \<open>Line reader\<close>

text \<open>
  \<^verbatim>\<open>get_lineA\<close> and \<^verbatim>\<open>get_lineW\<close> run the same loop on bytes and on \<^verbatim>\<open>WCHAR\<close>s. Of the
  buffer only the string at \<^verbatim>\<open>next\<close> is ever read again, so this string stands for
  the buffer; \<^verbatim>\<open>fread\<close> delivers the items asked for as far as the file has them.
  The string at \<^verbatim>\<open>next\<close> is shorter than \<^verbatim>\<open>size\<close>, so \<^verbatim>\<open>size - len\<close> does not wrap.
\<close>

definition not_eol :: "'a::len word \<Rightarrow> bool" where
  "not_eol c \<longleftrightarrow> c \<noteq> 0x0d \<and> c \<noteq> 0x0a"

function get_line_loop ::
  "nat \<Rightarrow> 'a::len word list \<Rightarrow> 'a word list \<Rightarrow> 'a word list \<times> nat \<times> 'a word list option \<times> 'a word list" where
  \<comment> \<open>from \<^verbatim>\<open>size\<close>, the string at \<^verbatim>\<open>next\<close> and the unread items of the file: the line,
      \<^verbatim>\<open>size\<close>, the string at \<^verbatim>\<open>next\<close> and what is left of the file\<close>
  "get_line_loop sz nxt fp =
     (let p = dropWhile not_eol nxt in
      if p = [] then
        (let len = length nxt;
             sz' = (if sz - len < 3 then sz * 2 else sz);
             count = min (sz' - len - 1) (length fp) in
         if count = 0 then (nxt, sz', None, fp)
         else get_line_loop sz' (nxt @ cstr (take count fp)) (drop count fp))
      else
        (takeWhile not_eol nxt, sz,
         Some (if hd p = 0x0d \<and> nthc p 1 = 0x0a then drop 2 p else tl p), fp))"
  by pat_completeness auto
termination
  by (relation "measure (\<lambda>(sz, nxt, fp). length fp)") auto

declare get_line_loop.simps [simp del]

definition REG_VAL_BUF_SIZE :: nat where
  "REG_VAL_BUF_SIZE = 4096"

definition get_lineA :: "('r, 'h) winapi \<Rightarrow> ('r, 'h) parser \<Rightarrow> wstr option \<times> ('r, 'h) parser" where
  "get_lineA os p =
     (let sz = (if sizeA p = 0 then REG_VAL_BUF_SIZE else sizeA p);
          nxt = (if sizeA p = 0 then Some [] else nextA p) in
      case nxt of
        None \<Rightarrow> (None, p\<lparr>sizeA := 0, nextA := None\<rparr>)
      | Some s \<Rightarrow>
          (case get_line_loop sz s (file_rest p) of
             (line, sz', nxt', fp) \<Rightarrow>
               (Some (GetWideString os line), p\<lparr>sizeA := sz', nextA := nxt', file_rest := fp\<rparr>)))"

definition get_lineW :: "('r, 'h) parser \<Rightarrow> wstr option \<times> ('r, 'h) parser" where
  \<comment> \<open>\<^verbatim>\<open>fread\<close> counts \<^verbatim>\<open>WCHAR\<close>s here: the file is read two bytes at a time\<close>
  "get_lineW p =
     (let sz = (if sizeW p = 0 then REG_VAL_BUF_SIZE else sizeW p);
          nxt = (if sizeW p = 0 then Some [] else nextW p) in
      case nxt of
        None \<Rightarrow> (None, p\<lparr>sizeW := 0, nextW := None\<rparr>)
      | Some s \<Rightarrow>
          (case get_line_loop sz s (bytes_wstr (file_rest p)) of
             (line, sz', nxt', fp) \<Rightarrow>
               (Some line,
                p\<lparr>sizeW := sz', nextW := nxt',
                  file_rest := drop (2 * (length (bytes_wstr (file_rest p)) - length fp)) (file_rest p)\<rparr>)))"

definition get_line :: "('r, 'h) winapi \<Rightarrow> ('r, 'h) parser \<Rightarrow> wstr option \<times> ('r, 'h) parser" where
  \<comment> \<open>the function pointer \<^verbatim>\<open>get_line\<close>, set from \<^verbatim>\<open>is_unicode\<close> when the import starts\<close>
  "get_line os p = (if is_unicode p then get_lineW p else get_lineA os p)"

definition get_line_NULL :: "('r, 'h) parser \<Rightarrow> ('r, 'h) parser" where
  \<comment> \<open>\<^verbatim>\<open>get_line(NULL)\<close>\<close>
  "get_line_NULL p = (if is_unicode p then p\<lparr>sizeW := 0\<rparr> else p\<lparr>sizeA := 0\<rparr>)"

section \<open>Import state machine\<close>

type_synonym ('r, 'h) state_result = "halt + (('r, 'h) parser \<times> wstr option)"

definition set_state :: "('r, 'h) parser \<Rightarrow> parser_state \<Rightarrow> ('r, 'h) parser" where
  "set_state p st = p\<lparr>state := st\<rparr>"

definition delete_registry_key :: "('r, 'h) winapi \<Rightarrow> 'r \<Rightarrow> wstr option \<Rightarrow> halt + 'r" where
  "delete_registry_key os reg reg_key_name =
     (case reg_key_name of
        None \<Rightarrow> Inr reg
      | Some kname \<Rightarrow>
          if kname = [] then Inr reg
          else (case parse_key_name kname of
                  (None, key_path) \<Rightarrow> Inl Error_exit
                | (Some key_class, None) \<Rightarrow> Inl Null_deref
                | (Some key_class, Some key_path) \<Rightarrow>
                    if key_path = [] then Inl Error_exit
                    else Inr (RegDeleteTreeW os reg key_class key_path)))"

definition header_state :: "('r, 'h) winapi \<Rightarrow> ('r, 'h) parser \<Rightarrow> wstr \<Rightarrow> ('r, 'h) state_result" where
  "header_state os p pos =
     (case get_line os p of
        (None, p1) \<Rightarrow> Inr (p1, None)
      | (Some line, p1) \<Rightarrow>
          (let header = (if \<not> is_unicode p1
                           then cstr ([fst (two_wchars p1), snd (two_wchars p1)] @ line)
                         else line);
               v = parse_file_header header;
               p2 = p1\<lparr>reg_version := Some v\<rparr> in
           if v = REG_VERSION_31 then Inr (set_state p2 PARSE_WIN31_LINE, Some line)
           else if v = REG_VERSION_40 \<or> v = REG_VERSION_50 then Inr (set_state p2 LINE_START, Some line)
           else Inr (get_line_NULL p2, None)))"

definition parse_win31_line_state ::
  "('r, 'h) winapi \<Rightarrow> ('r, 'h) parser \<Rightarrow> wstr \<Rightarrow> ('r, 'h) state_result" where
  \<comment> \<open>the NUL written at \<^verbatim>\<open>line[key_end]\<close> also ends \<^verbatim>\<open>value\<close> when that pointer has not
      moved off it\<close>
  "parse_win31_line_state os p pos =
     (case get_line os p of
        (None, p1) \<Rightarrow> Inr (p1, None)
      | (Some line, p1) \<Rightarrow>
          if take 17 line \<noteq> W ''HKEY_CLASSES_ROOT'' then Inr (p1, Some line)
          else
            (let key = takeWhile (\<lambda>c. \<not> isspaceW c) line;
                 v0 = dropWhile (\<lambda>c. \<not> isspaceW c) line;
                 v1 = dropWhile blank v0;
                 v2 = (if nthc v1 0 = 0x3d then tl v1 else v1);
                 v3 = (if nthc v2 0 = 0x20 then tl v2 else v2);
                 val = (if length v3 = length v0 then [] else v3) in
             case open_key os p1 key of
               (False, p2) \<Rightarrow> Inr (p2, Some key)
             | (True, p2) \<Rightarrow>
                 Inr (set_state (p2\<lparr>value_name := None, data_type := REG_SZ,
                                    data := wstr_bytes (val @ [0])\<rparr>) SET_VALUE,
                      Some val)))"

definition line_start_state :: "('r, 'h) winapi \<Rightarrow> ('r, 'h) parser \<Rightarrow> wstr \<Rightarrow> ('r, 'h) state_result" where
  "line_start_state os p pos =
     (case get_line os p of
        (None, p1) \<Rightarrow> Inr (p1, None)
      | (Some line, p1) \<Rightarrow>
          (let q = dropWhile blank line in
           if nthc q 0 = 0x5b then Inr (set_state p1 KEY_NAME, Some (tl q))
           else if nthc q 0 = 0x40 then Inr (set_state p1 DEFAULT_VALUE_NAME, Some q)
           else if nthc q 0 = 0x22 then Inr (set_state p1 QUOTED_VALUE_NAME, Some (tl q))
           else Inr (p1, Some q)))"

definition strrchr_head :: "wchar \<Rightarrow> wstr \<Rightarrow> wstr" where
  \<comment> \<open>the string in front of the last \<open>c\<close>, for a string that has one\<close>
  "strrchr_head c s = rev (tl (dropWhile (\<lambda>x. x \<noteq> c) (rev s)))"

definition key_name_state :: "('r, 'h) winapi \<Rightarrow> ('r, 'h) parser \<Rightarrow> wstr \<Rightarrow> ('r, 'h) state_result" where
  "key_name_state os p pos =
     (if nthc pos 0 = 0x20 \<or> nthc pos 0 = 0x09 \<or> 0x5d \<notin> set pos
        then Inr (set_state p LINE_START, Some pos)
      else let q = strrchr_head 0x5d pos in
        if nthc q 0 = 0x2d then Inr (set_state p DELETE_KEY, Some (tl q))
        else Inr (set_state (snd (open_key os p q)) LINE_START, Some q))"

definition delete_key_state :: "('r, 'h) winapi \<Rightarrow> ('r, 'h) parser \<Rightarrow> wstr \<Rightarrow> ('r, 'h) state_result" where
  "delete_key_state os p pos =
     (if nthc pos 0 = 0x48 \<or> nthc pos 0 = 0x68 then
        (case delete_registry_key os (registry p) (Some pos) of
           Inl h \<Rightarrow> Inl h
         | Inr r \<Rightarrow> Inr (set_state (p\<lparr>registry := r\<rparr>) LINE_START, Some pos))
      else Inr (set_state p LINE_START, Some pos))"

definition default_value_name_state ::
  "('r, 'h) winapi \<Rightarrow> ('r, 'h) parser \<Rightarrow> wstr \<Rightarrow> ('r, 'h) state_result" where
  "default_value_name_state os p pos =
     Inr (set_state (p\<lparr>value_name := None\<rparr>) DATA_START, Some (tl pos))"

definition quoted_value_name_state ::
  "('r, 'h) winapi \<Rightarrow> ('r, 'h) parser \<Rightarrow> wstr \<Rightarrow> ('r, 'h) state_result" where
  "quoted_value_name_state os p pos =
     (let p1 = p\<lparr>value_name := None\<rparr> in
      case REGPROC_unescape_string os pos of
        (False, val_name, q) \<Rightarrow> Inr (set_state p1 LINE_START, Some q)
      | (True, val_name, q) \<Rightarrow>
          Inr (set_state (p1\<lparr>value_name := Some val_name\<rparr>) DATA_START, Some q))"

definition data_start_state :: "('r, 'h) winapi \<Rightarrow> ('r, 'h) parser \<Rightarrow> wstr \<Rightarrow> ('r, 'h) state_result" where
  "data_start_state os p pos =
     (let q = dropWhile blank pos in
      if nthc q 0 \<noteq> 0x3d then Inr (set_state p LINE_START, Some q)
      else let q1 = dropWhile blank (tl q);
               q2 = rev (dropWhile blank (rev q1)) in
        if nthc q2 0 = 0x2d then Inr (set_state p DELETE_VALUE, Some q2)
        else Inr (set_state p DATA_TYPE, Some q2))"

definition delete_value_state :: "('r, 'h) winapi \<Rightarrow> ('r, 'h) parser \<Rightarrow> wstr \<Rightarrow> ('r, 'h) state_result" where
  "delete_value_state os p pos =
     (let q = dropWhile blank (tl pos) in
      if q \<noteq> [] \<and> hd q \<noteq> 0x3b then Inr (set_state p LINE_START, Some q)
      else Inr (set_state (p\<lparr>registry := RegDeleteValueW os (registry p) (hkey p) (value_name p)\<rparr>)
                  LINE_START, Some q))"

definition data_type_state :: "('r, 'h) winapi \<Rightarrow> ('r, 'h) parser \<Rightarrow> wstr \<Rightarrow> ('r, 'h) state_result" where
  "data_type_state os p pos =
     (case parse_data_type p pos of
        (False, p1, line) \<Rightarrow> Inr (set_state p1 LINE_START, Some line)
      | (True, p1, line) \<Rightarrow>
          Inr (set_state p1
                 (if parse_type p1 = REG_SZ then STRING_DATA
                  else if parse_type p1 = REG_DWORD then DWORD_DATA
                  else if parse_type p1 = REG_BINARY then HEX_DATA
                  else UNKNOWN_DATA),
               Some line))"

definition string_data_state :: "('r, 'h) winapi \<Rightarrow> ('r, 'h) parser \<Rightarrow> wstr \<Rightarrow> ('r, 'h) state_result" where
  "string_data_state os p pos =
     (case REGPROC_unescape_string os pos of
        (False, val, line) \<Rightarrow> Inr (set_state (free_parser_data p) LINE_START, Some line)
      | (True, val, line) \<Rightarrow>
          (let line1 = dropWhile blank line in
           if line1 \<noteq> [] \<and> hd line1 \<noteq> 0x3b
             then Inr (set_state (free_parser_data p) LINE_START, Some line1)
           else Inr (set_state (p\<lparr>data := wstr_bytes (val @ [0])\<rparr>) SET_VALUE, Some line1)))"

definition dword_data_state :: "('r, 'h) winapi \<Rightarrow> ('r, 'h) parser \<Rightarrow> wstr \<Rightarrow> ('r, 'h) state_result" where
  "dword_data_state os p pos =
     (case convert_hex_to_dword pos of
        None \<Rightarrow> Inr (set_state (free_parser_data p) LINE_START, Some pos)
      | Some (dw, line) \<Rightarrow> Inr (set_state (p\<lparr>data := dword_bytes dw\<rparr>) SET_VALUE, Some line))"

definition hex_data_state :: "('r, 'h) winapi \<Rightarrow> ('r, 'h) parser \<Rightarrow> wstr \<Rightarrow> ('r, 'h) state_result" where
  "hex_data_state os p pos =
     (case convert_hex_csv_to_hex p pos of
        (False, p1, line) \<Rightarrow> Inr (set_state (free_parser_data p1) LINE_START, Some line)
      | (True, p1, line) \<Rightarrow>
          if backslash p1 then Inr (set_state p1 EOL_BACKSLASH, Some line)
          else (case prepare_hex_string_data os (data_size p1 < hex_block_size p pos) p1 of
                  Inl h \<Rightarrow> Inl h
                | Inr p2 \<Rightarrow> Inr (set_state p2 SET_VALUE, Some line)))"

definition eol_backslash_state :: "('r, 'h) winapi \<Rightarrow> ('r, 'h) parser \<Rightarrow> wstr \<Rightarrow> ('r, 'h) state_result" where
  "eol_backslash_state os p pos =
     (let q = dropWhile blank pos in
      if q \<noteq> [] \<and> hd q \<noteq> 0x3b then Inr (set_state (free_parser_data p) LINE_START, Some q)
      else Inr (set_state p HEX_MULTILINE, Some pos))"

definition hex_multiline_state :: "('r, 'h) winapi \<Rightarrow> ('r, 'h) parser \<Rightarrow> wstr \<Rightarrow> ('r, 'h) state_result" where
  \<comment> \<open>this state is entered from \<^verbatim>\<open>EOL_BACKSLASH\<close> only, with the data of a line that ended
      in a backslash: \<^verbatim>\<open>convert_hex_csv_to_hex\<close> found a comma behind each of its bytes, so
      that line had two characters or more for each byte and the backslash, and the
      block is larger than \<^verbatim>\<open>data_size\<close>\<close>
  "hex_multiline_state os p pos =
     (case get_line os p of
        (None, p1) \<Rightarrow>
          (case prepare_hex_string_data os True p1 of
             Inl h \<Rightarrow> Inl h
           | Inr p2 \<Rightarrow> Inr (set_state p2 SET_VALUE, Some pos))
      | (Some line0, p1) \<Rightarrow>
          (let line = dropWhile blank line0 in
           if line = [] \<or> hd line = 0x3b then Inr (p1, Some line)
           else if \<not> isxdigitW (hd line) then Inr (set_state (free_parser_data p1) LINE_START, Some line)
           else Inr (set_state p1 HEX_DATA, Some line)))"

definition unknown_data_state :: "('r, 'h) winapi \<Rightarrow> ('r, 'h) parser \<Rightarrow> wstr \<Rightarrow> ('r, 'h) state_result" where
  "unknown_data_state os p pos = Inr (set_state p LINE_START, Some pos)"

definition set_value_state :: "('r, 'h) winapi \<Rightarrow> ('r, 'h) parser \<Rightarrow> wstr \<Rightarrow> ('r, 'h) state_result" where
  "set_value_state os p pos =
     (let p1 = p\<lparr>registry := RegSetValueExW os (registry p) (hkey p) (value_name p) (data_type p) (data p)\<rparr>;
          p2 = free_parser_data p1 in
      if reg_version p2 = Some REG_VERSION_31 then Inr (set_state p2 PARSE_WIN31_LINE, Some pos)
      else Inr (set_state p2 LINE_START, Some pos))"

fun parser_funcs ::
  "parser_state \<Rightarrow> ('r, 'h) winapi \<Rightarrow> ('r, 'h) parser \<Rightarrow> wstr \<Rightarrow> ('r, 'h) state_result" where
  "parser_funcs HEADER = header_state"
| "parser_funcs PARSE_WIN31_LINE = parse_win31_line_state"
| "parser_funcs LINE_START = line_start_state"
| "parser_funcs KEY_NAME = key_name_state"
| "parser_funcs DELETE_KEY = delete_key_state"
| "parser_funcs DEFAULT_VALUE_NAME = default_value_name_state"
| "parser_funcs QUOTED_VALUE_NAME = quoted_value_name_state"
| "parser_funcs DATA_START = data_start_state"
| "parser_funcs DELETE_VALUE = delete_value_state"
| "parser_funcs DATA_TYPE = data_type_state"
| "parser_funcs STRING_DATA = string_data_state"
| "parser_funcs DWORD_DATA = dword_data_state"
| "parser_funcs HEX_DATA = hex_data_state"
| "parser_funcs EOL_BACKSLASH = eol_backslash_state"
| "parser_funcs HEX_MULTILINE = hex_multiline_state"
| "parser_funcs UNKNOWN_DATA = unknown_data_state"
| "parser_funcs SET_VALUE = set_value_state"

partial_function (option) parser_main_loop ::
  "('r, 'h) winapi \<Rightarrow> ('r, 'h) parser \<Rightarrow> wstr option \<Rightarrow> (halt + ('r, 'h) parser) option" where
  \<comment> \<open>\<^verbatim>\<open>while (pos) pos = (parser_funcs[parser.state])(&parser, pos);\<close> with \<open>None\<close>
      for a loop that does not end\<close>
  "parser_main_loop os p pos =
     (case pos of
        None \<Rightarrow> Some (Inr p)
      | Some q \<Rightarrow>
          (case parser_funcs (state p) os p q of
             Inl h \<Rightarrow> Some (Inl h)
           | Inr (p', pos') \<Rightarrow> parser_main_loop os p' pos'))"

declare parser_main_loop.simps [code]

definition parser_init :: "'r \<Rightarrow> byte list \<Rightarrow> ('r, 'h) parser" where
  \<comment> \<open>the parser as \<^verbatim>\<open>import_registry_file\<close> sets it up once the first two bytes \<^verbatim>\<open>s\<close>
      are read; the static variables of the line readers are 0, as every import
      leaves them\<close>
  "parser_init reg bytes =
     \<lparr>file_rest = drop 2 bytes, two_wchars = (ucast (bytes ! 0), ucast (bytes ! 1)),
      is_unicode = (bytes ! 0 = 0xff \<and> bytes ! 1 = 0xfe), reg_version = None,
      hkey = None, key_name = None, value_name = None,
      parse_type = 0, data_type = 0, data = [], backslash = False,
      state = HEADER, registry = reg, errno_range = False,
      sizeA = 0, nextA = None, sizeW = 0, nextW = None\<rparr>"

definition import_registry_file ::
  "('r, 'h) winapi \<Rightarrow> 'r \<Rightarrow> byte list option \<Rightarrow> (halt + (bool \<times> 'r)) option" where
  \<comment> \<open>from the registry and the contents of \<^verbatim>\<open>reg_file\<close>: the value returned and the
      registry, or how the process stopped\<close>
  "import_registry_file os reg reg_file =
     (case reg_file of
        None \<Rightarrow> Some (Inr (False, reg))
      | Some bytes \<Rightarrow>
          if length bytes < 2 then Some (Inr (False, reg))
          else
            (case parser_main_loop os (parser_init reg bytes)
                    (Some [ucast (bytes ! 0), ucast (bytes ! 1)]) of
               None \<Rightarrow> None
             | Some (Inl h) \<Rightarrow> Some (Inl h)
             | Some (Inr p) \<Rightarrow>
                 if reg_version p = Some REG_VERSION_FUZZY \<or> reg_version p = Some REG_VERSION_INVALID
                   then Some (Inr (reg_version p = Some REG_VERSION_FUZZY, registry p))
                 else Some (Inr (True, registry (close_key os p)))))"

fun parser_steps ::
  "nat \<Rightarrow> ('r, 'h) winapi \<Rightarrow> ('r, 'h) parser \<Rightarrow> wstr option \<Rightarrow> ('r, 'h) state_result" where
  \<comment> \<open>the first \<open>n\<close> rounds of the main loop\<close>
  "parser_steps 0 os p pos = Inr (p, pos)"
| "parser_steps (Suc n) os p None = Inr (p, None)"
| "parser_steps (Suc n) os p (Some q) =
     (case parser_funcs (state p) os p q of
        Inl h \<Rightarrow> Inl h
      | Inr (p', pos') \<Rightarrow> parser_steps n os p' pos')"

definition header_line :: "('r, 'h) winapi \<Rightarrow> byte list \<Rightarrow> wstr" where
  \<comment> \<open>the header that \<^verbatim>\<open>header_state\<close> hands to \<^verbatim>\<open>parse_file_header\<close> for a file of these
      bytes: the first line that the line reader delivers, in an ANSI file behind the
      two bytes that \<^verbatim>\<open>import_registry_file\<close> has read already\<close>
  "header_line os bytes =
     (if bytes ! 0 = 0xff \<and> bytes ! 1 = 0xfe
        then fst (get_line_loop REG_VAL_BUF_SIZE [] (bytes_wstr (drop 2 bytes)))
      else cstr ([ucast (bytes ! 0), ucast (bytes ! 1)]
                 @ GetWideString os (fst (get_line_loop REG_VAL_BUF_SIZE [] (drop 2 bytes)))))"

section \<open>Export: rendering a value\<close>

text \<open>
  \<^verbatim>\<open>sprintfW\<close> is modelled for the four conversions the exporter uses, as ISO C
  specifies them: \<^verbatim>\<open>%s\<close>, \<^verbatim>\<open>%x\<close>, \<^verbatim>\<open>%02x\<close> and \<^verbatim>\<open>%08x\<close>, with lower-case digits.
  What an export writes is the list of the strings it hands to \<^verbatim>\<open>REGPROC_write_line\<close>,
  in order; \<^verbatim>\<open>REGPROC_write_line\<close> turns each of them into the bytes of the file.
\<close>

definition hexdig :: "int \<Rightarrow> wchar" where
  "hexdig n = (if n < 10 then 0x30 + of_int n else 0x57 + of_int n)"

function fmt_x_int :: "int \<Rightarrow> wstr" where
  "fmt_x_int n = (if n < 16 then [hexdig n] else fmt_x_int (n div 16) @ [hexdig (n mod 16)])"
  by pat_completeness auto
termination
  by (relation "measure nat") auto

declare fmt_x_int.simps [simp del]

definition fmt_x :: "dword \<Rightarrow> wstr" where
  \<comment> \<open>\<^verbatim>\<open>%x\<close>\<close>
  "fmt_x v = fmt_x_int (uint v)"

definition fmt_02x :: "byte \<Rightarrow> wstr" where
  \<comment> \<open>\<^verbatim>\<open>%02x\<close> of a byte\<close>
  "fmt_02x b = [hexdig (uint b div 16), hexdig (uint b mod 16)]"

definition fmt_08x :: "dword \<Rightarrow> wstr" where
  \<comment> \<open>\<^verbatim>\<open>%08x\<close>\<close>
  "fmt_08x v =
     [hexdig (uint v div 0x10000000 mod 16), hexdig (uint v div 0x1000000 mod 16),
      hexdig (uint v div 0x100000 mod 16), hexdig (uint v div 0x10000 mod 16),
      hexdig (uint v div 0x1000 mod 16), hexdig (uint v div 0x100 mod 16),
      hexdig (uint v div 0x10 mod 16), hexdig (uint v mod 16)]"

type_synonym written = "wstr list"

definition REGPROC_write_line :: "('r, 'h) winapi \<Rightarrow> bool \<Rightarrow> wstr \<Rightarrow> byte list" where
  \<comment> \<open>the bytes that reach the file\<close>
  "REGPROC_write_line os unicode str =
     (if unicode then wstr_bytes (cstr str) else GetMultiByteString os (cstr str))"

definition MAX_HEX_CHARS :: nat where
  "MAX_HEX_CHARS = 77"

definition REG_FILE_HEX_LINE_LEN :: nat where
  "REG_FILE_HEX_LINE_LEN = 2 + 25 * 3"

definition hex_concat :: wstr where
  \<comment> \<open>backslash, CR, LF and two spaces: \<^verbatim>\<open>concat\<close> and \<^verbatim>\<open>hex_concat\<close>\<close>
  "hex_concat = [0x5c, 0x0d, 0x0a, 0x20, 0x20]"

definition newline :: wstr where
  "newline = [0x0d, 0x0a]"

fun export_string_char :: "wchar \<Rightarrow> wstr" where
  \<comment> \<open>one round of the loop of \<^verbatim>\<open>REGPROC_export_string\<close>\<close>
  "export_string_char c =
     (if c = 0x0a then [0x5c, 0x6e]
      else if c = 0x0d then [0x5c, 0x72]
      else if c = 0x5c \<or> c = 0x22 then [0x5c, c]
      else [c])"

definition REGPROC_export_string :: "wstr \<Rightarrow> wstr" where
  \<comment> \<open>what is appended to the line buffer for \<^verbatim>\<open>str\<close> of \<^verbatim>\<open>str_len\<close> characters\<close>
  "REGPROC_export_string str = concat (map export_string_char str)"

fun export_binary_loop :: "byte list \<Rightarrow> nat \<Rightarrow> wstr" where
  \<comment> \<open>the \<^verbatim>\<open>while (1)\<close> loop of \<^verbatim>\<open>REGPROC_export_binary\<close>, from the bytes \<^verbatim>\<open>value[i..]\<close> and
      \<^verbatim>\<open>column\<close>: the text written from \<^verbatim>\<open>data_pos\<close> on\<close>
  "export_binary_loop [] column = []"
| "export_binary_loop [b] column = fmt_02x b"
| "export_binary_loop (b # b' # bs) column =
     fmt_02x b @ [0x2c] @
     (if column + 3 \<ge> REG_FILE_HEX_LINE_LEN then hex_concat @ export_binary_loop (b' # bs) 2
      else export_binary_loop (b' # bs) (column + 3))"

definition REGPROC_export_binary ::
  "('r, 'h) winapi \<Rightarrow> nat \<Rightarrow> dword \<Rightarrow> byte list \<Rightarrow> bool \<Rightarrow> wstr" where
  \<comment> \<open>from \<^verbatim>\<open>*line_len\<close>, the type, the \<^verbatim>\<open>value_size\<close> bytes and \<^verbatim>\<open>unicode\<close>: what is put
      into the line buffer at \<^verbatim>\<open>hex_pos\<close>\<close>
  "REGPROC_export_binary os line_len ty val unicode =
     (let hex_prefix = (if ty = REG_BINARY then W ''hex:'' else W ''hex('' @ fmt_x ty @ W ''):'');
          val' = (if ty \<noteq> REG_BINARY \<and> (ty = REG_SZ \<or> ty = REG_EXPAND_SZ \<or> ty = REG_MULTI_SZ)
                     \<and> \<not> unicode
                  then GetMultiByteStringN os (bytes_wstr val) else val)
      in hex_prefix @ export_binary_loop val' (line_len + length hex_prefix) @ newline)"

definition export_hkey :: "('r, 'h) winapi \<Rightarrow> dword \<Rightarrow> byte list \<Rightarrow> bool \<Rightarrow> written" where
  \<comment> \<open>\<^verbatim>\<open>wstr[val_size1 / sizeof(WCHAR) - 1]\<close> is the last complete \<^verbatim>\<open>WCHAR\<close> of the data\<close>
  "export_hkey os value_type val_buf unicode =
     (if length val_buf < 2 \<or> length val_buf mod 2 \<noteq> 0 \<or> last (bytes_wstr val_buf) \<noteq> 0
        then [REGPROC_export_binary os 0 value_type val_buf unicode]
      else [[0x22] @ REGPROC_export_string (cstr (bytes_wstr val_buf)) @ [0x22, 0x0d, 0x0a]])"

fun escape_string_char :: "wchar \<Rightarrow> wstr" where
  \<comment> \<open>one round of the second loop of \<^verbatim>\<open>REGPROC_escape_string\<close>\<close>
  "escape_string_char c =
     (if c = 0x0d then [0x5c, 0x72]
      else if c = 0x0a then [0x5c, 0x6e]
      else if c = 0x5c then [0x5c, 0x5c]
      else if c = 0x22 then [0x5c, 0x22]
      else if c = 0 then [0x5c, 0x30]
      else [c])"

definition REGPROC_escape_string :: "wstr \<Rightarrow> wstr" where
  "REGPROC_escape_string str = concat (map escape_string_char str)"

definition export_value_name :: "wstr \<Rightarrow> written \<times> nat" where
  \<comment> \<open>from the \<^verbatim>\<open>len\<close> characters of \<^verbatim>\<open>name\<close>: what is written, and \<^verbatim>\<open>line_len\<close>\<close>
  "export_value_name name =
     (if nthc name 0 \<noteq> 0 then
        (let buf = [0x22] @ REGPROC_escape_string name @ [0x22, 0x3d]
         in ([buf], length buf))
      else ([W ''@=''], 2))"

definition dword_of_bytes :: "byte list \<Rightarrow> dword" where
  \<comment> \<open>\<^verbatim>\<open>*(DWORD *)data\<close>, from the first four bytes\<close>
  "dword_of_bytes d =
     ucast (d ! 0) OR push_bit 8 (ucast (d ! 1)) OR push_bit 16 (ucast (d ! 2))
       OR push_bit 24 (ucast (d ! 3))"

definition data_buffer :: "byte list \<Rightarrow> (nat \<Rightarrow> byte) \<Rightarrow> nat \<Rightarrow> byte" where
  \<comment> \<open>the data buffer of \<^verbatim>\<open>export_registry_data\<close> by offset, once \<^verbatim>\<open>RegEnumValueW\<close> has
      written the data of a value to its start: behind the data it holds what it held
      before\<close>
  "data_buffer d stale i = (if i < length d then d ! i else stale i)"

definition export_dword_data :: "(nat \<Rightarrow> byte) \<Rightarrow> wstr" where
  \<comment> \<open>the buffer, from the data buffer: four bytes are read whatever the size of the data
      is (the buffer has 2048 bytes or more)\<close>
  "export_dword_data buf = W ''dword:'' @ fmt_08x (dword_of_bytes (map buf [0, 1, 2, 3]))"

definition export_hex_data_type :: "dword \<Rightarrow> written \<times> nat" where
  "export_hex_data_type ty =
     (let buf = (if ty = REG_BINARY then W ''hex:'' else W ''hex('' @ fmt_x ty @ W ''):'')
      in ([buf], length buf))"

fun export_hex_loop :: "byte list \<Rightarrow> nat \<Rightarrow> wstr \<Rightarrow> written \<times> wstr" where
  \<comment> \<open>the \<^verbatim>\<open>for\<close> loop of \<^verbatim>\<open>export_hex_data\<close>, from the bytes \<^verbatim>\<open>data[i..]\<close>, \<^verbatim>\<open>line_len\<close> and
      the string in \<^verbatim>\<open>*buf\<close> up to \<^verbatim>\<open>pos\<close>: what is written, and the string left in
      \<^verbatim>\<open>*buf\<close>\<close>
  "export_hex_loop [] line_len buf = ([], buf)"
| "export_hex_loop [b] line_len buf = ([], buf @ fmt_02x b)"
| "export_hex_loop (b # b' # bs) line_len buf =
     (let buf' = buf @ fmt_02x b @ [0x2c] in
      if line_len + 3 \<ge> MAX_HEX_CHARS then
        (case export_hex_loop (b' # bs) 2 [] of (w, r) \<Rightarrow> (buf' # hex_concat # w, r))
      else export_hex_loop (b' # bs) (line_len + 3) buf')"

definition export_hex_data ::
  "('r, 'h) winapi \<Rightarrow> dword \<Rightarrow> nat \<Rightarrow> byte list \<Rightarrow> bool \<Rightarrow> written \<times> wstr" where
  \<comment> \<open>what is written and the string left in \<^verbatim>\<open>*buf\<close>. With no data, \<^verbatim>\<open>*buf\<close> is a block
      of no bytes that nothing is written to, and \<^verbatim>\<open>export_data\<close> writes the string it
      finds there.\<close>
  "export_hex_data os ty line_len d unicode =
     (let (w0, n) = export_hex_data_type ty;
          d' = (if \<not> unicode \<and> (ty = REG_EXPAND_SZ \<or> ty = REG_MULTI_SZ)
                then GetMultiByteStringN os (bytes_wstr d) else d)
      in if d' = [] then (w0, empty_block os)
         else (case export_hex_loop d' (line_len + n) [] of (w, r) \<Rightarrow> (w0 @ w, r)))"

definition export_data ::
  "('r, 'h) winapi \<Rightarrow> dword \<Rightarrow> nat \<Rightarrow> (nat \<Rightarrow> byte) \<Rightarrow> byte list \<Rightarrow> bool \<Rightarrow> written" where
  \<comment> \<open>\<open>stale\<close>: what the data buffer held before the data was written to it\<close>
  "export_data os ty line_len stale d unicode =
     (if ty = REG_DWORD then [export_dword_data (data_buffer d stale), newline]
      else (case export_hex_data os ty line_len d unicode of (w, buf) \<Rightarrow> w @ [buf, newline]))"

definition export_value ::
  "('r, 'h) winapi \<Rightarrow> bool \<Rightarrow> (nat \<Rightarrow> byte) \<Rightarrow> wstr \<times> dword \<times> byte list \<Rightarrow> written" where
  \<comment> \<open>the branch \<^verbatim>\<open>rc == ERROR_SUCCESS\<close> of the first loop of \<^verbatim>\<open>export_registry_data\<close>, for
      the name, type and data that \<^verbatim>\<open>RegEnumValueW\<close> has delivered, and what the data
      buffer held before\<close>
  "export_value os unicode stale v =
     (case v of (name, ty, d) \<Rightarrow>
        (let (w, line_len) = export_value_name name in
         if ty \<noteq> REG_SZ then w @ export_data os ty line_len stale d unicode
         else w @ export_hkey os ty d unicode))"

subsection \<open>The physical lines of a rendered text\<close>

fun crlf_lines :: "wstr \<Rightarrow> wstr list" where
  \<comment> \<open>a text split at each CR LF\<close>
  "crlf_lines [] = [[]]"
| "crlf_lines [c] = [[c]]"
| "crlf_lines (c # c' # cs) =
     (if c = 0x0d \<and> c' = 0x0a then [] # crlf_lines cs
      else (case crlf_lines (c' # cs) of l # ls \<Rightarrow> (c # l) # ls | [] \<Rightarrow> [[c]]))"

definition columns :: "wstr \<Rightarrow> nat" where
  \<comment> \<open>the length of a line, not counting the backslash that continues it\<close>
  "columns l = (if l \<noteq> [] \<and> last l = 0x5c then length l - 1 else length l)"

section \<open>Export: walking the keys\<close>

text \<open>
  For the export, a key of the registry is the tree of what its enumeration delivers:
  its values (name, type and data) in the order of \<^verbatim>\<open>RegEnumValueW\<close>, and its subkeys
  by name in the order of \<^verbatim>\<open>RegEnumKeyExW\<close>. The three calls are read off this tree: an
  index behind the last entry ends an enumeration, a buffer that is too small gives
  \<^verbatim>\<open>ERROR_MORE_DATA\<close> (with the size that the data needs), and \<^verbatim>\<open>RegOpenKeyExW\<close> finds a
  subkey by its name. Sizes stay below \<^verbatim>\<open>2^32\<close>: the doubling of a \<^verbatim>\<open>DWORD\<close> does not
  wrap.
\<close>

datatype reg_key =
  Key (key_values: "(wstr \<times> dword \<times> byte list) list") (key_subkeys: "(wstr \<times> reg_key) list")

datatype enum_value = Value_success wstr dword "byte list" | Value_more_data nat | Value_no_more

datatype enum_key = Key_success wstr | Key_more_data | Key_no_more

definition RegEnumValueW :: "reg_key \<Rightarrow> nat \<Rightarrow> nat \<Rightarrow> nat \<Rightarrow> enum_value" where
  \<comment> \<open>for the index, \<^verbatim>\<open>value_len\<close> and \<^verbatim>\<open>data_size\<close> on entry\<close>
  "RegEnumValueW k i value_len dsize =
     (if i < length (key_values k) then
        (case key_values k ! i of (name, ty, d) \<Rightarrow>
           if length d > dsize then Value_more_data (length d)
           else if length name \<ge> value_len then Value_more_data dsize
           else Value_success name ty d)
      else Value_no_more)"

definition RegEnumKeyExW :: "reg_key \<Rightarrow> nat \<Rightarrow> nat \<Rightarrow> enum_key" where
  "RegEnumKeyExW k i subkey_len =
     (if i < length (key_subkeys k) then
        (if length (fst (key_subkeys k ! i)) \<ge> subkey_len then Key_more_data
         else Key_success (fst (key_subkeys k ! i)))
      else Key_no_more)"

definition RegOpenKeyExW :: "reg_key \<Rightarrow> wstr \<Rightarrow> reg_key option" where
  "RegOpenKeyExW k name = map_of (key_subkeys k) name"

definition export_key_name :: "wstr \<Rightarrow> wstr" where
  \<comment> \<open>the line written\<close>
  "export_key_name name = [0x0d, 0x0a, 0x5b] @ cstr name @ [0x5d, 0x0d, 0x0a]"

definition build_subkey_path :: "wstr \<Rightarrow> wstr \<Rightarrow> wstr" where
  "build_subkey_path path subkey_name = cstr path @ [0x5c] @ cstr subkey_name"

definition MAX_SUBKEY_LEN :: nat where
  "MAX_SUBKEY_LEN = 257"

partial_function (option) export_values_loop ::
  "('r, 'h) winapi \<Rightarrow> bool \<Rightarrow> reg_key \<Rightarrow> nat \<Rightarrow> nat \<Rightarrow> nat \<Rightarrow> (nat \<Rightarrow> byte) \<Rightarrow> written
     \<Rightarrow> written option" where
  \<comment> \<open>the first loop of \<^verbatim>\<open>export_registry_data\<close>, from \<^verbatim>\<open>i\<close>, \<^verbatim>\<open>max_value_len\<close>,
      \<^verbatim>\<open>max_data_bytes\<close>, the data buffer by offset and what is written so far;
      \<^verbatim>\<open>resize_buffer\<close> keeps what the buffer holds\<close>
  "export_values_loop os unicode k i max_value_len max_data_bytes buf fp =
     (case RegEnumValueW k i max_value_len max_data_bytes of
        Value_success name ty d \<Rightarrow>
          export_values_loop os unicode k (i + 1) max_value_len max_data_bytes (data_buffer d buf)
            (fp @ export_value os unicode buf (name, ty, d))
      | Value_more_data dsize \<Rightarrow>
          if dsize > max_data_bytes
            then export_values_loop os unicode k i max_value_len (max_data_bytes * 2) buf fp
          else export_values_loop os unicode k i (max_value_len * 2) max_data_bytes buf fp
      | Value_no_more \<Rightarrow> Some fp)"

declare export_values_loop.simps [code]

lemma map_of_size_less:
  "map_of subs name = Some k \<Longrightarrow> size k < Suc (size_list (size_prod (\<lambda>_. 0) size) subs)"
  by (induction subs) (auto split: if_splits)

lemma subkey_size_less: "map_of (key_subkeys k) name = Some x \<Longrightarrow> size x < size k"
  by (cases k) (auto dest: map_of_size_less)

function export_registry_data ::
    "('r, 'h) winapi \<Rightarrow> bool \<Rightarrow> reg_key \<Rightarrow> wstr \<Rightarrow> written option"
  and export_subkeys_loop ::
    "('r, 'h) winapi \<Rightarrow> bool \<Rightarrow> reg_key \<Rightarrow> wstr \<Rightarrow> nat \<Rightarrow> written \<Rightarrow> written option" where
  \<comment> \<open>what is written for the key and all below it (\<open>None\<close> if the first loop does not
      end); the second loop from \<^verbatim>\<open>i\<close> and what is written so far\<close>
  "export_registry_data os unicode k path =
     (case export_values_loop os unicode k 0 256 2048 (uninit_data os) [export_key_name path] of
        None \<Rightarrow> None
      | Some fp \<Rightarrow> export_subkeys_loop os unicode k path 0 fp)"
| "export_subkeys_loop os unicode k path i fp =
     (case RegEnumKeyExW k i MAX_SUBKEY_LEN of
        Key_success subkey_name \<Rightarrow>
          (case RegOpenKeyExW k subkey_name of
             Some subkey \<Rightarrow>
               (case export_registry_data os unicode subkey (build_subkey_path path subkey_name) of
                  None \<Rightarrow> None
                | Some w \<Rightarrow> export_subkeys_loop os unicode k path (i + 1) (fp @ w))
           | None \<Rightarrow> export_subkeys_loop os unicode k path (i + 1) fp)
      | Key_more_data \<Rightarrow> Some fp
      | Key_no_more \<Rightarrow> Some fp)"
  by pat_completeness auto
termination
proof (relation "measures
    [\<lambda>x. case x of Inl (os, unicode, k, path) \<Rightarrow> size k | Inr (os, unicode, k, path, i, fp) \<Rightarrow> size k,
     \<lambda>x. case x of Inl (os, unicode, k, path) \<Rightarrow> Suc (length (key_subkeys k))
                  | Inr (os, unicode, k, path, i, fp) \<Rightarrow> length (key_subkeys k) - i]")
  show "wf (measures
    [\<lambda>x. case x of Inl (os, unicode, k, path) \<Rightarrow> size k | Inr (os, unicode, k, path, i, fp) \<Rightarrow> size k,
     \<lambda>x. case x of Inl (os, unicode, k, path) \<Rightarrow> Suc (length (key_subkeys k))
                  | Inr (os, unicode, k, path, i, fp) \<Rightarrow> length (key_subkeys k) - i])"
    by simp
qed (auto simp: RegEnumKeyExW_def RegOpenKeyExW_def split: if_splits dest: subkey_size_less)

declare export_registry_data.simps [simp del]
declare export_subkeys_loop.simps [simp del]

definition REGPROC_open_export_file :: "bool \<Rightarrow> byte list" where
  \<comment> \<open>what is written to the file that is opened\<close>
  "REGPROC_open_export_file unicode =
     (if unicode
        then [0xff, 0xfe] @ wstr_bytes (W ''Windows Registry Editor Version 5.00'' @ [0x0d, 0x0a])
      else map of_char ''REGEDIT4'' @ [0x0d, 0x0a])"

definition file_bytes :: "('r, 'h) winapi \<Rightarrow> bool \<Rightarrow> written \<Rightarrow> byte list" where
  \<comment> \<open>the bytes of the strings written, in the encoding of the file\<close>
  "file_bytes os unicode w = concat (map (REGPROC_write_line os unicode) w)"

definition export_key ::
  "('r, 'h) winapi \<Rightarrow> (hkey_class \<Rightarrow> wstr option \<Rightarrow> reg_key option) \<Rightarrow> wstr \<Rightarrow> bool \<Rightarrow>
     byte list option option" where
  \<comment> \<open>the contents of the file, or \<open>None\<close> inside where \<^verbatim>\<open>FALSE\<close> is returned and no file
      is written; the second argument is \<^verbatim>\<open>RegOpenKeyExW\<close> on a root class\<close>
  "export_key os open_root path unicode =
     (case parse_key_name path of
        (None, subkey) \<Rightarrow> Some None
      | (Some key_class, subkey) \<Rightarrow>
          (case open_root key_class subkey of
             None \<Rightarrow> Some None
           | Some k \<Rightarrow>
               (case export_registry_data os unicode k path of
                  None \<Rightarrow> None
                | Some w \<Rightarrow>
                    Some (Some (REGPROC_open_export_file unicode @ file_bytes os unicode w)))))"

section \<open>A registry that records its calls\<close>

text \<open>
  For the concrete runs below: the registry is the list of the calls made on it, a
  handle names the key it was opened for, every key can be created, the code page maps
  a byte to the character of the same number and back, and memory that was not written
  holds zeros.
\<close>

datatype reg_call =
  Create_key hkey_class "wstr option"
| Close_key "hkey_class \<times> wstr option"
| Set_value "(hkey_class \<times> wstr option) option" "wstr option" dword "byte list"
| Delete_value "(hkey_class \<times> wstr option) option" "wstr option"
| Delete_tree hkey_class wstr

definition recording :: "(reg_call list, hkey_class \<times> wstr option) winapi" where
  "recording =
     \<lparr>RegCreateKeyExW = (\<lambda>r c path. (Some (c, path), r @ [Create_key c path])),
      RegCloseKey = (\<lambda>r h. r @ [Close_key h]),
      RegSetValueExW = (\<lambda>r h name ty d. r @ [Set_value h name ty d]),
      RegDeleteValueW = (\<lambda>r h name. r @ [Delete_value h name]),
      RegDeleteTreeW = (\<lambda>r c path. r @ [Delete_tree c path]),
      MultiByteToWideChar = map ucast,
      WideCharToMultiByte = map ucast,
      uninit_data = (\<lambda>i. 0),
      empty_block = [],
      behind_terminator = (\<lambda>s. []),
      before_block = 0\<rparr>"

definition A :: "string \<Rightarrow> byte list" where
  \<comment> \<open>the bytes of an ASCII text\<close>
  "A s = map of_char s"

definition sample_parser :: "(reg_call list, hkey_class \<times> wstr option) parser" where
  \<comment> \<open>the parser at the start of an import into the recording registry\<close>
  "sample_parser = parser_init [] (A ''REGEDIT4'')"


section \<open>Facts about strings and the number conversion\<close>

lemma blank_isspaceW: "blank c \<Longrightarrow> isspaceW c"
  by (auto simp: blank_def isspaceW_def)

lemma dropWhile_blanks: "\<forall>c\<in>set ws. blank c \<Longrightarrow> dropWhile blank (ws @ r) = dropWhile blank r"
  by (simp add: dropWhile_append2)

lemma dropWhile_blanks_stop:
  "\<forall>c\<in>set ws. blank c \<Longrightarrow> \<not> blank x \<Longrightarrow> dropWhile blank (ws @ x # r) = x # r"
  by (simp add: dropWhile_append2)

lemma takeWhile_blanks: "\<forall>c\<in>set ws. blank c \<Longrightarrow> takeWhile blank (ws @ r) = ws @ takeWhile blank r"
  by (simp add: takeWhile_append2)

lemma takeWhile_spaces: "\<forall>c\<in>set ws. blank c \<Longrightarrow> takeWhile isspaceW (ws @ r) = ws @ takeWhile isspaceW r"
  by (simp add: takeWhile_append2 blank_isspaceW)

lemma nthc_Cons_0 [simp]: "nthc (x # r) 0 = x"
  by (simp add: nthc_def)

lemma nthc_Nil [simp]: "nthc [] i = 0"
  by (simp add: nthc_def)

lemma nthc_Cons_Suc [simp]: "nthc (x # r) (Suc i) = nthc r i"
  by (simp add: nthc_def)

lemma strtoul16_none:
  assumes "\<forall>c\<in>set ws. blank c" and "\<not> isspaceW x" "\<not> isxdigitW x" "x \<noteq> 0x2d" "x \<noteq> 0x2b"
  shows "strtoul16 (ws @ x # r) = \<lparr>value_of = 0, used = 0, erange = False\<rparr>"
proof -
  have "x \<noteq> 0x30" using assms(3) by (auto simp: isxdigitW_def)
  moreover have "takeWhile isspaceW (ws @ x # r) = ws"
    using assms by (simp add: takeWhile_spaces)
  ultimately show ?thesis
    using assms(3-5) unfolding strtoul16_def Let_def by simp
qed

lemma strtoul16_Nil: "strtoul16 [] = \<lparr>value_of = 0, used = 0, erange = False\<rparr>"
  by (simp add: strtoul16_def)

lemma strtoul16_zero:
  assumes "\<not> isxdigitW (nthc r 0)" "nthc r 0 \<noteq> 0x78" "nthc r 0 \<noteq> 0x58"
  shows "strtoul16 (0x30 # r) = \<lparr>value_of = 0, used = 1, erange = False\<rparr>"
proof -
  have "takeWhile isspaceW (0x30 # r) = []" by (simp add: isspaceW_def)
  moreover have "isxdigitW 0x30" "xdigit_val 0x30 = 0"
    by (simp_all add: isxdigitW_def xdigit_val_def)
  then have "strtoul_digits (0x30 # r) 0 0 = (0, 1)"
    using assms(1) by (cases r) simp_all
  ultimately show ?thesis
    using assms(2,3) unfolding strtoul16_def Let_def by simp
qed

lemma hex_csv_loop_backslash:
  assumes "\<forall>c\<in>set ws. blank c"
  shows "hex_csv_loop (ws @ 0x5c # rest) d str =
     \<lparr>hex_ok = True, hex_data = d, hex_backslash = True, hex_str = rest, hex_erange = False\<rparr>"
proof -
  have "strtoul16 (ws @ 0x5c # rest) = \<lparr>value_of = 0, used = 0, erange = False\<rparr>"
    by (rule strtoul16_none [OF assms]) (simp_all add: isspaceW_def isxdigitW_def)
  moreover have "dropWhile blank (ws @ 0x5c # rest) = 0x5c # rest"
    using assms by (simp add: dropWhile_blanks_stop blank_def)
  ultimately show ?thesis
    by (subst hex_csv_loop.simps) (simp add: Let_def blank_def)
qed

lemma hex_csv_loop_zero_backslash:
  assumes "\<forall>c\<in>set ws. blank c"
  shows "hex_csv_loop (0x30 # ws @ 0x5c # rest) d str =
     \<lparr>hex_ok = False, hex_data = d @ [0], hex_backslash = False, hex_str = str, hex_erange = False\<rparr>"
proof -
  have x: "blank (nthc (ws @ 0x5c # rest) 0) \<or> nthc (ws @ 0x5c # rest) 0 = 0x5c"
    using assms by (cases ws) auto
  then have "strtoul16 (0x30 # ws @ 0x5c # rest) = \<lparr>value_of = 0, used = 1, erange = False\<rparr>"
    by (intro strtoul16_zero) (auto simp: blank_def isxdigitW_def)
  moreover have "dropWhile blank (ws @ 0x5c # rest) = 0x5c # rest"
    using assms by (simp add: dropWhile_blanks_stop blank_def)
  moreover have "hd (ws @ 0x5c # rest) \<noteq> 0x2c" using x by (cases ws) (auto simp: blank_def)
  ultimately show ?thesis
    by (subst hex_csv_loop.simps) (simp add: Let_def blank_def)
qed

lemma parse_data_type_dword:
  "parse_data_type p (W ''dword:'' @ rest) = (True, p\<lparr>parse_type := REG_DWORD, data_type := REG_DWORD\<rparr>, rest)"
  by (simp add: parse_data_type_def data_types_def W_def)

lemma parse_data_type_hex:
  "parse_data_type p (W ''hex:'' @ rest) = (True, p\<lparr>parse_type := REG_BINARY, data_type := REG_BINARY\<rparr>, rest)"
  by (simp add: parse_data_type_def data_types_def W_def)

lemma trim_blanks_stop:
  "\<not> blank x \<Longrightarrow> rev (dropWhile blank (rev (xs @ x # c))) = xs @ x # rev (dropWhile blank (rev c))"
  by (simp add: dropWhile_append)

lemma trim_blanks_all:
  "\<forall>c\<in>set b. blank c \<Longrightarrow> xs \<noteq> [] \<Longrightarrow> \<not> blank (last xs) \<Longrightarrow> rev (dropWhile blank (rev (xs @ b))) = xs"
  by (cases xs rule: rev_cases) (simp_all add: dropWhile_append)

lemma convert_hex_to_dword_comment:
  assumes "\<forall>c\<in>set ws. blank c"
  shows "convert_hex_to_dword (ws @ 0x3b # c) = Some (0, ws)"
proof -
  have "dropWhile blank (ws @ 0x3b # c) = 0x3b # c" "takeWhile blank (ws @ 0x3b # c) = ws"
    using assms by (simp_all add: dropWhile_blanks_stop takeWhile_blanks blank_def)
  then show ?thesis
    by (simp add: convert_hex_to_dword_def Let_def isxdigitW_def blank_def strtoul16_Nil)
qed

lemma convert_hex_to_dword_blank:
  assumes "\<forall>c\<in>set ws. blank c"
  shows "convert_hex_to_dword ws = None"
  using assms by (simp add: convert_hex_to_dword_def)

lemma data_start_state_data:
  assumes "\<forall>c\<in>set b1. blank c" "\<forall>c\<in>set b2. blank c" "\<not> blank x" "x \<noteq> 0x2d"
  shows "data_start_state os p (b1 @ 0x3d # b2 @ x # r)
    = Inr (set_state p DATA_TYPE, Some (rev (dropWhile blank (rev (x # r)))))"
proof -
  have "dropWhile blank (b1 @ 0x3d # b2 @ x # r) = 0x3d # b2 @ x # r"
       "dropWhile blank (b2 @ x # r) = x # r"
    using assms by (simp_all add: dropWhile_blanks_stop blank_def)
  moreover have "rev (dropWhile blank (rev (x # r))) = x # rev (dropWhile blank (rev r))"
    using trim_blanks_stop [of x "[]" r] assms(3) by simp
  ultimately show ?thesis using assms(4)
    by (simp add: data_start_state_def Let_def)
qed

lemma parser_steps_Suc:
  "parser_funcs (state p) os p q = Inr (p', pos') \<Longrightarrow>
   parser_steps (Suc n) os p (Some q) = parser_steps n os p' pos'"
  by simp

lemma state_set_state [simp]: "state (set_state p st) = st"
  by (simp add: set_state_def)

lemma hex_csv_loop_Nil:
  "hex_csv_loop [] d str = \<lparr>hex_ok = True, hex_data = d, hex_backslash = False, hex_str = str, hex_erange = False\<rparr>"
  by (subst hex_csv_loop.simps) simp

lemma data_start_state_trailing:
  assumes "\<forall>c\<in>set b1. blank c" "\<forall>c\<in>set b2. blank c" "\<forall>c\<in>set b3. blank c"
    and "xs \<noteq> []" "\<not> blank (hd xs)" "hd xs \<noteq> 0x2d" "\<not> blank (last xs)"
  shows "data_start_state os p (b1 @ 0x3d # b2 @ xs @ b3) = Inr (set_state p DATA_TYPE, Some xs)"
proof -
  obtain x r where xs: "xs = x # r" using assms(4) by (cases xs) auto
  have "dropWhile blank (b1 @ 0x3d # b2 @ xs @ b3) = 0x3d # b2 @ xs @ b3"
       "dropWhile blank (b2 @ xs @ b3) = xs @ b3"
    using assms(1,2,5) xs by (simp_all add: dropWhile_blanks_stop blank_def)
  moreover have "rev (dropWhile blank (rev (xs @ b3))) = xs"
    using trim_blanks_all [OF assms(3,4,7)] .
  ultimately show ?thesis using assms(6) xs
    by (simp add: data_start_state_def Let_def)
qed



lemma header_state_init:
  assumes "parse_file_header (header_line os bytes) = v"
    and "v = REG_VERSION_FUZZY \<or> v = REG_VERSION_INVALID"
  shows "\<exists>p'. header_state os (parser_init reg bytes) pos = Inr (p', None)
            \<and> reg_version p' = Some v \<and> registry p' = reg"
  using assms
  by (auto simp: header_state_def get_line_def get_lineA_def get_lineW_def parser_init_def
      header_line_def get_line_NULL_def Let_def split: prod.splits)

lemma parser_main_loop_None: "parser_main_loop os p None = Some (Inr p)"
  by (subst parser_main_loop.simps) simp

lemma parser_main_loop_Some:
  "parser_funcs (state p) os p q = Inr (p', pos') \<Longrightarrow>
   parser_main_loop os p (Some q) = parser_main_loop os p' pos'"
  by (subst parser_main_loop.simps) simp

lemma parser_main_loop_halt:
  "parser_funcs (state p) os p q = Inl h \<Longrightarrow> parser_main_loop os p (Some q) = Some (Inl h)"
  by (subst parser_main_loop.simps) simp

lemma import_header:
  assumes "2 \<le> length bytes" and "parse_file_header (header_line os bytes) = v"
    and "v = REG_VERSION_FUZZY \<or> v = REG_VERSION_INVALID"
  shows "import_registry_file os reg (Some bytes) = Some (Inr (v = REG_VERSION_FUZZY, reg))"
proof -
  obtain p' where h: "header_state os (parser_init reg bytes) [ucast (bytes ! 0), ucast (bytes ! 1)] = Inr (p', None)"
    and p': "reg_version p' = Some v" "registry p' = reg"
    using header_state_init [OF assms(2,3)] by blast
  have "state (parser_init reg bytes :: ('a, 'b) parser) = HEADER" by (simp add: parser_init_def)
  then have "parser_main_loop os (parser_init reg bytes) (Some [ucast (bytes ! 0), ucast (bytes ! 1)])
     = Some (Inr p')"
    using parser_main_loop_Some [of "parser_init reg bytes" os _ p' None] h
    by (simp add: parser_main_loop_None)
  then show ?thesis
    using assms(1,3) p' by (auto simp: import_registry_file_def)
qed

lemma parse_file_header_cases:
  "parse_file_header h =
     (let s = dropWhile blank h in
      if s = W ''REGEDIT'' then REG_VERSION_31
      else if s = W ''REGEDIT4'' then REG_VERSION_40
      else if s = W ''Windows Registry Editor Version 5.00'' then REG_VERSION_50
      else if take 7 s = W ''REGEDIT'' then REG_VERSION_FUZZY
      else REG_VERSION_INVALID)"
  by (simp add: parse_file_header_def)


lemma export_value_sz:
  "export_value os unicode stale (name, REG_SZ, d)
     = fst (export_value_name name) @ export_hkey os REG_SZ d unicode"
  by (cases "export_value_name name") (simp add: export_value_def)

lemma export_value_other:
  "ty \<noteq> REG_SZ \<Longrightarrow> export_value os unicode stale (name, ty, d)
     = fst (export_value_name name) @ export_data os ty (snd (export_value_name name)) stale d unicode"
  by (cases "export_value_name name") (simp add: export_value_def)

lemma export_value_name_single: "length (fst (export_value_name name)) = 1"
  by (simp add: export_value_name_def Let_def)

lemma crlf_lines_not_Nil [simp]: "crlf_lines t \<noteq> []"
  by (induction t rule: crlf_lines.induct) (auto split: list.splits)



lemma crlf_lines_CRLF: "crlf_lines (0x0d # 0x0a # t) = [] # crlf_lines t"
  by simp


lemma columns_Nil [simp]: "columns [] = 0"
  by (simp add: columns_def)

lemma hexdig_range:
  assumes "0 \<le> n" "n < 16"
  shows "hexdig n \<in> {0x30, 0x31, 0x32, 0x33, 0x34, 0x35, 0x36, 0x37, 0x38, 0x39,
                      0x61, 0x62, 0x63, 0x64, 0x65, 0x66}"
proof -
  have "n \<in> {0, 1, 2, 3, 4, 5, 6, 7, 8, 9, 10, 11, 12, 13, 14, 15}"
    using assms by (simp only: insert_iff empty_iff) arith
  then show ?thesis
    by (auto simp: hexdig_def)
qed

lemma hexdig_not_special:
  assumes "0 \<le> n" "n < 16"
  shows "hexdig n \<noteq> 0x0d" "hexdig n \<noteq> 0x0a" "hexdig n \<noteq> 0x5c" "hexdig n \<noteq> 0" "hexdig n \<noteq> 0x2c"
  using hexdig_range [OF assms] by auto

lemma fmt_02x_set:
  "0x0d \<notin> set (fmt_02x b)" "0x5c \<notin> set (fmt_02x b)" "length (fmt_02x b) = 2"
proof -
  have "0 \<le> uint b div 16" "uint b div 16 < 16" "0 \<le> uint b mod 16" "uint b mod 16 < 16"
    using uint_lt2p [of b] by (auto simp: div_less_iff_less_mult pos_imp_zdiv_nonneg_iff)
  then show "0x0d \<notin> set (fmt_02x b)" "0x5c \<notin> set (fmt_02x b)" "length (fmt_02x b) = 2"
    using hexdig_not_special by (auto simp: fmt_02x_def)
qed






lemma export_hex_loop_text:
  "export_hex_loop bs line_len buf = (w, r) \<Longrightarrow> concat w @ r = buf @ export_binary_loop bs line_len"
proof (induction bs line_len buf arbitrary: w r rule: export_hex_loop.induct)
  case (3 b b' bs line_len buf)
  then show ?case
    by (auto simp: MAX_HEX_CHARS_def REG_FILE_HEX_LINE_LEN_def Let_def split: if_splits prod.splits)
qed simp_all

lemma escape_string_no_CR: "0x0d \<notin> set (REGPROC_escape_string s)"
  by (induction s) (auto simp: REGPROC_escape_string_def)





lemma wchar_of_bytes: "ucast (ucast c :: byte) OR push_bit 8 (ucast (ucast (drop_bit 8 c) :: byte)) = (c :: wchar)"
  by (rule bit_word_eqI) (auto simp: bit_simps)

lemma bytes_wstr_wstr_bytes [simp]: "bytes_wstr (wstr_bytes s) = s"
  by (induction s) (simp_all add: wstr_bytes_def wchar_bytes_def wchar_of_bytes)

lemma bytes_wstr_drop: "bytes_wstr (drop (2 * k) bs) = drop k (bytes_wstr bs)"
proof (induction bs arbitrary: k rule: bytes_wstr.induct)
  case (1 lo hi bs)
  then show ?case by (cases k) simp_all
qed (auto simp: drop_Cons split: nat.splits)

lemma bytes_of_wchar:
  "ucast (ucast lo OR push_bit 8 (ucast hi) :: wchar) = (lo :: byte)"
  "ucast (drop_bit 8 (ucast lo OR push_bit 8 (ucast hi) :: wchar)) = (hi :: byte)"
  by (rule bit_word_eqI; auto simp: bit_simps dest: bit_imp_le_length)+

lemma wstr_bytes_bytes_wstr: "even (length d) \<Longrightarrow> wstr_bytes (bytes_wstr d) = d"
proof (induction d rule: bytes_wstr.induct)
  case (1 lo hi bs)
  then show ?case using bytes_of_wchar [of lo hi] by (simp add: wstr_bytes_def wchar_bytes_def)
qed (simp_all add: wstr_bytes_def)

lemma wstr_bytes_append [simp]: "wstr_bytes (a @ b) = wstr_bytes a @ wstr_bytes b"
  by (simp add: wstr_bytes_def)

lemma dword_bytes_of_bytes: "length d = 4 \<Longrightarrow> dword_bytes (dword_of_bytes d) = d"
proof -
  assume "length d = 4"
  then obtain a b c e where d: "d = [a, b, c, e]"
    by (cases d; cases "tl d"; cases "tl (tl d)"; cases "tl (tl (tl d))") auto
  have "ucast (ucast a OR push_bit 8 (ucast b) OR push_bit 16 (ucast c) OR push_bit 24 (ucast e) :: dword) = a"
    "ucast (drop_bit 8 (ucast a OR push_bit 8 (ucast b) OR push_bit 16 (ucast c) OR push_bit 24 (ucast e) :: dword)) = b"
    "ucast (drop_bit 16 (ucast a OR push_bit 8 (ucast b) OR push_bit 16 (ucast c) OR push_bit 24 (ucast e) :: dword)) = c"
    "ucast (drop_bit 24 (ucast a OR push_bit 8 (ucast b) OR push_bit 16 (ucast c) OR push_bit 24 (ucast e) :: dword)) = e"
    by (rule bit_word_eqI; auto simp: bit_simps dest: bit_imp_le_length)+
  then show ?thesis unfolding d dword_bytes_def dword_of_bytes_def by (simp only: nth_Cons_0 nth_Cons_Suc One_nat_def [symmetric] numeral_2_eq_2 [symmetric] numeral_3_eq_3 [symmetric] nth_Cons_numeral) simp
qed


lemma uint_hexdig:
  assumes "0 \<le> n" "n < 16"
  shows "uint (hexdig n) = (if n < 10 then 48 + n else 87 + n)"
proof -
  have "n mod 65536 = n" "(48 + n) mod 65536 = 48 + n" "(87 + n) mod 65536 = 87 + n"
    using assms by simp_all
  then show ?thesis
    by (simp add: hexdig_def uint_word_ariths uint_word_of_int)
qed

lemma wchar_neq_uint: "uint (c :: wchar) \<noteq> uint d \<Longrightarrow> c \<noteq> d"
  by auto

lemma hexdig_facts:
  assumes "0 \<le> n" "n < 16"
  shows "isxdigitW (hexdig n)" "xdigit_val (hexdig n) = n" "\<not> isspaceW (hexdig n)"
    "hexdig n \<noteq> 0x2d" "hexdig n \<noteq> 0x2b" "hexdig n \<noteq> 0x78" "hexdig n \<noteq> 0x58" "\<not> blank (hexdig n)"
    "hexdig n \<noteq> 0x3b" "hexdig n \<noteq> 0x22" "hexdig n \<noteq> 0x5b" "hexdig n \<noteq> 0x40"
proof -
  note u = uint_hexdig [OF assms]
  show "isxdigitW (hexdig n)" using assms by (simp add: isxdigitW_def word_le_def u)
  show "xdigit_val (hexdig n) = n" using assms by (simp add: xdigit_val_def word_le_def u)
  show "\<not> isspaceW (hexdig n)" using assms by (auto simp: isspaceW_def word_le_def u intro!: wchar_neq_uint split: if_splits)
  show "\<not> blank (hexdig n)" using assms by (auto simp: blank_def u intro!: wchar_neq_uint split: if_splits)
  show "hexdig n \<noteq> 0x2d" "hexdig n \<noteq> 0x2b" "hexdig n \<noteq> 0x78" "hexdig n \<noteq> 0x58" 
    "hexdig n \<noteq> 0x3b" "hexdig n \<noteq> 0x22" "hexdig n \<noteq> 0x5b" "hexdig n \<noteq> 0x40"
    using assms by (auto simp: u intro!: wchar_neq_uint split: if_splits)
qed

definition hexdigits :: "int list \<Rightarrow> bool" where
  "hexdigits ds \<longleftrightarrow> (\<forall>n\<in>set ds. 0 \<le> n \<and> n < 16)"

definition hexvalue :: "int list \<Rightarrow> int" where
  "hexvalue ds = foldl (\<lambda>a n. 16 * a + n) 0 ds"

lemma strtoul_digits_hexdigits:
  assumes "hexdigits ds" "\<not> isxdigitW (nthc t 0)"
  shows "strtoul_digits (map hexdig ds @ t) a k = (foldl (\<lambda>a n. 16 * a + n) a ds, k + length ds)"
  using assms
proof (induction ds arbitrary: a k)
  case Nil
  then show ?case by (cases t) simp_all
next
  case (Cons n ds)
  then show ?case by (simp add: hexdigits_def hexdig_facts)
qed

lemma strtoul16_hexdigits:
  assumes "hexdigits ds" "ds \<noteq> []" "hexvalue ds \<le> 0xffffffff"
    and "\<not> isxdigitW (nthc t 0)" "length ds = 1 \<longrightarrow> nthc t 0 \<noteq> 0x78 \<and> nthc t 0 \<noteq> 0x58"
  shows "strtoul16 (map hexdig ds @ t) = \<lparr>value_of = of_int (hexvalue ds), used = length ds, erange = False\<rparr>"
proof -
  obtain n ns where ds: "ds = n # ns" using assms(2) by (cases ds) auto
  have n: "0 \<le> n" "n < 16" using assms(1) by (simp_all add: ds hexdigits_def)
  have tw: "takeWhile isspaceW (map hexdig ds @ t) = []"
    using hexdig_facts(3) [OF n] by (simp add: ds)
  have x: "nthc (map hexdig ds @ t) (Suc 0) \<noteq> 0x78 \<and> nthc (map hexdig ds @ t) (Suc 0) \<noteq> 0x58"
  proof (cases ns)
    case Nil
    then show ?thesis using assms(5) by (simp add: ds)
  next
    case (Cons m ms)
    then have "0 \<le> m" "m < 16" using assms(1) by (simp_all add: ds hexdigits_def)
    then show ?thesis using hexdig_facts(6,7) [of m] by (simp add: ds Cons)
  qed
  have sg: "nthc (map hexdig ds @ t) 0 \<noteq> 0x2d" "nthc (map hexdig ds @ t) 0 \<noteq> 0x2b"
    using hexdig_facts(4,5) [OF n] by (simp_all add: ds)
  have len: "length ds \<noteq> 0" using assms(2) by simp
  show ?thesis
    unfolding strtoul16_def Let_def tw
    using sg x len assms(3)
    by (simp add: strtoul_digits_hexdigits [OF assms(1,4)] hexvalue_def)
qed



lemma fmt_02x_digits:
  "fmt_02x b = map hexdig [uint b div 16, uint b mod 16]"
  "hexdigits [uint b div 16, uint b mod 16]"
  "hexvalue [uint b div 16, uint b mod 16] = uint b"
proof -
  have "uint b div 16 < 16" using uint_lt2p [of b] by simp
  then show "hexdigits [uint b div 16, uint b mod 16]"
    by (simp add: hexdigits_def pos_imp_zdiv_nonneg_iff)
qed (simp_all add: fmt_02x_def hexvalue_def)

lemma strtoul16_fmt_02x:
  assumes "\<not> isxdigitW (nthc t 0)"
  shows "strtoul16 (fmt_02x b @ t) = \<lparr>value_of = ucast b, used = 2, erange = False\<rparr>"
proof -
  have "uint b \<le> 0xffffffff" using uint_lt2p [of b] by simp
  then have "strtoul16 (map hexdig [uint b div 16, uint b mod 16] @ t)
      = \<lparr>value_of = of_int (hexvalue [uint b div 16, uint b mod 16]),
         used = length [uint b div 16, uint b mod 16], erange = False\<rparr>"
    using assms by (intro strtoul16_hexdigits fmt_02x_digits) (simp_all add: fmt_02x_digits(3))
  then show ?thesis by (simp add: fmt_02x_digits(1,3) del: list.map)
qed

lemma fmt_08x_digits:
  "fmt_08x v = map hexdig [uint v div 0x10000000 mod 16, uint v div 0x1000000 mod 16,
      uint v div 0x100000 mod 16, uint v div 0x10000 mod 16,
      uint v div 0x1000 mod 16, uint v div 0x100 mod 16,
      uint v div 0x10 mod 16, uint v mod 16]"
  "hexdigits [uint v div 0x10000000 mod 16, uint v div 0x1000000 mod 16,
      uint v div 0x100000 mod 16, uint v div 0x10000 mod 16,
      uint v div 0x1000 mod 16, uint v div 0x100 mod 16,
      uint v div 0x10 mod 16, uint v mod 16]"
  "hexvalue [uint v div 0x10000000 mod 16, uint v div 0x1000000 mod 16,
      uint v div 0x100000 mod 16, uint v div 0x10000 mod 16,
      uint v div 0x1000 mod 16, uint v div 0x100 mod 16,
      uint v div 0x10 mod 16, uint v mod 16] = uint (v :: dword)"
proof -
  define q where "q k = uint v div k" for k :: int
  have "uint v < 0x100000000" "0 \<le> uint v" using uint_lt2p [of v] by simp_all
  then have top: "q 0x100000000 = 0" "q 1 = uint v" by (simp_all add: q_def)
  have d: "q k mod 16 = q k - 16 * q (k * 16)" for k
    using minus_mult_div_eq_mod [of "uint v div k" 16] by (simp add: q_def zdiv_zmult2_eq)
  have "268435456 * (q 268435456 mod 16) + 16777216 * (q 16777216 mod 16) +
     1048576 * (q 1048576 mod 16) + 65536 * (q 65536 mod 16) +
     4096 * (q 4096 mod 16) + 256 * (q 256 mod 16) + 16 * (q 16 mod 16) + q 1 mod 16 = q 1"
    unfolding d by (simp add: top)
  then have "268435456 * (uint v div 268435456 mod 16) + 16777216 * (uint v div 16777216 mod 16) +
     1048576 * (uint v div 1048576 mod 16) + 65536 * (uint v div 65536 mod 16) +
     4096 * (uint v div 4096 mod 16) + 256 * (uint v div 256 mod 16) + 16 * (uint v div 16 mod 16)
     + uint v mod 16 = uint v"
    by (simp add: q_def)
  then show "hexvalue [uint v div 0x10000000 mod 16, uint v div 0x1000000 mod 16,
      uint v div 0x100000 mod 16, uint v div 0x10000 mod 16,
      uint v div 0x1000 mod 16, uint v div 0x100 mod 16,
      uint v div 0x10 mod 16, uint v mod 16] = uint v"
    by (simp add: hexvalue_def)
qed (simp_all add: fmt_08x_def hexdigits_def)


lemma strtoul16_fmt_08x:
  "strtoul16 (fmt_08x v) = \<lparr>value_of = v, used = 8, erange = False\<rparr>"
proof -
  let ?ds = "[uint v div 0x10000000 mod 16, uint v div 0x1000000 mod 16,
      uint v div 0x100000 mod 16, uint v div 0x10000 mod 16,
      uint v div 0x1000 mod 16, uint v div 0x100 mod 16,
      uint v div 0x10 mod 16, uint v mod 16]"
  have "uint v \<le> 0xffffffff" using uint_lt2p [of v] by simp
  then have "strtoul16 (map hexdig ?ds @ [])
      = \<lparr>value_of = of_int (hexvalue ?ds), used = length ?ds, erange = False\<rparr>"
    by (intro strtoul16_hexdigits fmt_08x_digits) (simp_all add: fmt_08x_digits(3) isxdigitW_def)
  then show ?thesis by (simp add: fmt_08x_digits(1,3) del: list.map)
qed

lemma fmt_x_int_digits:
  "0 \<le> n \<Longrightarrow> \<exists>ds. fmt_x_int n = map hexdig ds \<and> hexdigits ds \<and> ds \<noteq> [] \<and> hexvalue ds = n"
proof (induction n rule: fmt_x_int.induct)
  case (1 n)
  show ?case
  proof (cases "n < 16")
    case True
    then have "fmt_x_int n = map hexdig [n]" "hexdigits [n]" "hexvalue [n] = n"
      using 1(2) by (simp_all add: fmt_x_int.simps hexdigits_def hexvalue_def)
    then show ?thesis by blast
  next
    case False
    then obtain ds where ds: "fmt_x_int (n div 16) = map hexdig ds" "hexdigits ds" "ds \<noteq> []"
        "hexvalue ds = n div 16"
      using 1 by (auto simp: pos_imp_zdiv_nonneg_iff)
    have "fmt_x_int n = map hexdig (ds @ [n mod 16])"
      using False ds(1) by (subst fmt_x_int.simps) simp
    moreover have "hexdigits (ds @ [n mod 16])" using ds(2) by (simp add: hexdigits_def)
    moreover have "hexvalue (ds @ [n mod 16]) = n"
      using ds(4) by (simp add: hexvalue_def)
    ultimately show ?thesis by blast
  qed
qed

lemma strtoul16_fmt_x:
  "strtoul16 (fmt_x ty @ 0x29 # t) = \<lparr>value_of = ty, used = length (fmt_x ty), erange = False\<rparr>"
proof -
  obtain ds where ds: "fmt_x_int (uint ty) = map hexdig ds" "hexdigits ds" "ds \<noteq> []"
      "hexvalue ds = uint ty"
    using fmt_x_int_digits [of "uint ty"] by auto
  have "uint ty \<le> 0xffffffff" using uint_lt2p [of ty] by simp
  then have "strtoul16 (map hexdig ds @ 0x29 # t)
      = \<lparr>value_of = of_int (hexvalue ds), used = length ds, erange = False\<rparr>"
    using ds by (intro strtoul16_hexdigits) (simp_all add: isxdigitW_def)
  moreover have "length ds = length (fmt_x_int (uint ty))" by (simp add: ds(1))
  ultimately show ?thesis using ds(1) [symmetric] by (simp add: fmt_x_def ds(4))
qed

lemma fmt_x_head:
  "fmt_x ty \<noteq> []" "nthc (fmt_x ty @ 0x29 # t) (Suc 0) \<noteq> 0x78" "nthc (fmt_x ty @ 0x29 # t) (Suc 0) \<noteq> 0x58"
  "0x0d \<notin> set (fmt_x ty)" "0x0a \<notin> set (fmt_x ty)" "0 \<notin> set (fmt_x ty)" "\<not> blank (last (fmt_x ty))"
proof -
  obtain ds where ds: "fmt_x_int (uint ty) = map hexdig ds" "hexdigits ds" "ds \<noteq> []"
    using fmt_x_int_digits [of "uint ty"] by auto
  show "fmt_x ty \<noteq> []" using ds by (simp add: fmt_x_def)
  obtain n ns where c: "ds = n # ns" using ds(3) by (cases ds) auto
  show "nthc (fmt_x ty @ 0x29 # t) (Suc 0) \<noteq> 0x78" "nthc (fmt_x ty @ 0x29 # t) (Suc 0) \<noteq> 0x58"
    using ds(2) hexdig_facts(6,7) [of "hd ns"] by (cases ns; simp add: fmt_x_def ds(1) c hexdigits_def)+
  have r: "c \<noteq> 0x0d \<and> c \<noteq> 0x0a \<and> c \<noteq> 0" if "c \<in> set (fmt_x ty)" for c
  proof -
    have "c \<in> hexdig ` set ds" using that by (simp add: fmt_x_def ds(1))
    then obtain k where "c = hexdig k" "k \<in> set ds" by blast
    have "0 \<le> k" "k < 16" using ds(2) \<open>k \<in> set ds\<close> by (simp_all add: hexdigits_def)
    then show ?thesis using hexdig_not_special [OF \<open>0 \<le> k\<close> \<open>k < 16\<close>] \<open>c = hexdig k\<close> by simp
  qed
  show "0x0d \<notin> set (fmt_x ty)" using r [of "0x0d"] by auto
  show "0x0a \<notin> set (fmt_x ty)" using r [of "0x0a"] by auto
  show "0 \<notin> set (fmt_x ty)" using r [of 0] by auto
  have "last (fmt_x ty) = hexdig (last ds)" using ds(3) by (simp add: fmt_x_def ds(1) last_map)
  moreover have "0 \<le> last ds \<and> last ds < 16" using ds(2,3) by (simp add: hexdigits_def)
  ultimately show "\<not> blank (last (fmt_x ty))" using hexdig_facts(8) by simp
qed

lemma convert_hex_to_dword_fmt_08x:
  "convert_hex_to_dword (fmt_08x v) = Some (v, fmt_08x v)"
proof -
  let ?ds = "[uint v div 0x10000000 mod 16, uint v div 0x1000000 mod 16,
      uint v div 0x100000 mod 16, uint v div 0x10000 mod 16,
      uint v div 0x1000 mod 16, uint v div 0x100 mod 16,
      uint v div 0x10 mod 16, uint v mod 16]"
  have a: "\<forall>c\<in>set (fmt_08x v). isxdigitW c \<and> \<not> blank c"
    using fmt_08x_digits(2) [of v] hexdig_facts(1,8)
    by (simp only: fmt_08x_digits(1) hexdigits_def) auto
  have l: "length (fmt_08x v) = 8" by (simp add: fmt_08x_def)
  then have ne: "fmt_08x v \<noteq> []" by auto
  have b: "dropWhile blank (fmt_08x v) = fmt_08x v" "takeWhile blank (fmt_08x v) = []"
    using a ne by (cases "fmt_08x v"; simp)+
  have x: "takeWhile isxdigitW (fmt_08x v) = fmt_08x v" "dropWhile isxdigitW (fmt_08x v) = []"
    using a by simp_all
  show ?thesis
    unfolding convert_hex_to_dword_def Let_def b x
    using ne l by (simp add: strtoul16_fmt_08x)
qed


fun hex_list :: "byte list \<Rightarrow> wstr" where
  "hex_list [] = []"
| "hex_list [b] = fmt_02x b"
| "hex_list (b # b' # bs) = fmt_02x b @ 0x2c # hex_list (b' # bs)"

definition hex_list_comma :: "byte list \<Rightarrow> wstr" where
  "hex_list_comma bs = concat (map (\<lambda>b. fmt_02x b @ [0x2c]) bs)"

lemma export_binary_loop_split:
  "export_binary_loop bs col = hex_list bs
   \<or> (\<exists>bs1 bs2. bs = bs1 @ bs2 \<and> bs2 \<noteq> [] \<and> length bs2 < length bs
         \<and> export_binary_loop bs col = hex_list_comma bs1 @ hex_concat @ export_binary_loop bs2 2)"
proof (induction bs col rule: export_binary_loop.induct)
  case (3 b b' bs column)
  show ?case
  proof (cases "column + 3 \<ge> REG_FILE_HEX_LINE_LEN")
    case True
    then have e: "export_binary_loop (b # b' # bs) column
       = hex_list_comma [b] @ hex_concat @ export_binary_loop (b' # bs) 2"
      by (simp add: hex_list_comma_def)
    show ?thesis
    proof (intro disjI2 exI conjI)
      show "b # b' # bs = [b] @ (b' # bs)" by simp
      show "b' # bs \<noteq> []" by simp
      show "length (b' # bs) < length (b # b' # bs)" by simp
      show "export_binary_loop (b # b' # bs) column
         = hex_list_comma [b] @ hex_concat @ export_binary_loop (b' # bs) 2"
        by (rule e)
    qed
  next
    case False
    then have e: "export_binary_loop (b # b' # bs) column
       = fmt_02x b @ 0x2c # export_binary_loop (b' # bs) (column + 3)"
      by simp
    from 3(2) [OF False] show ?thesis
    proof
      assume "export_binary_loop (b' # bs) (column + 3) = hex_list (b' # bs)"
      then have "export_binary_loop (b # b' # bs) column = hex_list (b # b' # bs)"
        by (simp only: e hex_list.simps)
      then show ?thesis by (rule disjI1)
    next
      assume "\<exists>bs1 bs2. b' # bs = bs1 @ bs2 \<and> bs2 \<noteq> [] \<and> length bs2 < length (b' # bs)
         \<and> export_binary_loop (b' # bs) (column + 3) = hex_list_comma bs1 @ hex_concat @ export_binary_loop bs2 2"
      then obtain bs1 bs2 where x: "b' # bs = bs1 @ bs2" "bs2 \<noteq> []" "length bs2 < length (b' # bs)"
        "export_binary_loop (b' # bs) (column + 3) = hex_list_comma bs1 @ hex_concat @ export_binary_loop bs2 2"
        by blast
      show ?thesis
      proof (intro disjI2 exI conjI)
        show "b # b' # bs = (b # bs1) @ bs2" using x(1) by simp
        show "bs2 \<noteq> []" by (rule x(2))
        show "length bs2 < length (b # b' # bs)" using x(3) by simp
        show "export_binary_loop (b # b' # bs) column
            = hex_list_comma (b # bs1) @ hex_concat @ export_binary_loop bs2 2"
          by (simp only: e x(4)) (simp add: hex_list_comma_def)
      qed
    qed
  qed
qed simp_all

lemma ucast_byte_dword: "ucast (ucast (b :: byte) :: dword) = b" "\<not> (ucast b :: dword) > 0xff"
proof -
  show "ucast (ucast (b :: byte) :: dword) = b"
    by (rule bit_word_eqI) (auto simp: bit_simps)
  have "uint (ucast b :: dword) = uint b" by (simp add: uint_up_ucast is_up)
  then show "\<not> (ucast b :: dword) > 0xff"
    using uint_lt2p [of b] by (simp add: word_less_def)
qed

lemma hex_csv_loop_byte:
  "hex_csv_loop (fmt_02x b) d str = hex_csv_loop [] (d @ [b]) str"
  "hex_csv_loop (fmt_02x b @ 0x2c # t) d str = hex_csv_loop t (d @ [b]) str"
proof -
  have r: "strtoul16 (fmt_02x b) = \<lparr>value_of = ucast b, used = 2, erange = False\<rparr>"
    using strtoul16_fmt_02x [of "[]" b] by (simp add: isxdigitW_def)
  have l: "fmt_02x b \<noteq> []" "drop 2 (fmt_02x b) = []" by (simp_all add: fmt_02x_def)
  show "hex_csv_loop (fmt_02x b) d str = hex_csv_loop [] (d @ [b]) str"
    by (subst hex_csv_loop.simps) (simp add: r l ucast_byte_dword Let_def)
  have r2: "strtoul16 (fmt_02x b @ 0x2c # t) = \<lparr>value_of = ucast b, used = 2, erange = False\<rparr>"
    by (rule strtoul16_fmt_02x) (simp add: isxdigitW_def)
  have l2: "drop 2 (fmt_02x b @ 0x2c # t) = 0x2c # t" by (simp add: fmt_02x_def)
  show "hex_csv_loop (fmt_02x b @ 0x2c # t) d str = hex_csv_loop t (d @ [b]) str"
    by (subst hex_csv_loop.simps) (simp add: r2 l fmt_02x_set(3) ucast_byte_dword Let_def)
qed

lemma hex_csv_loop_hex_list:
  "hex_csv_loop (hex_list bs) d str
     = \<lparr>hex_ok = True, hex_data = d @ bs, hex_backslash = False, hex_str = str, hex_erange = False\<rparr>"
  by (induction bs arbitrary: d rule: hex_list.induct)
     (simp_all add: hex_csv_loop_byte hex_csv_loop_Nil)

lemma hex_csv_loop_hex_list_comma:
  "hex_csv_loop (hex_list_comma bs @ [0x5c]) d str
     = \<lparr>hex_ok = True, hex_data = d @ bs, hex_backslash = True, hex_str = [], hex_erange = False\<rparr>"
proof (induction bs arbitrary: d)
  case Nil
  show ?case using hex_csv_loop_backslash [of "[]" "[]" d str] by (simp add: hex_list_comma_def)
next
  case (Cons b bs)
  then show ?case using hex_csv_loop_byte(2) [of b "hex_list_comma bs @ [0x5c]" d str]
    by (simp add: hex_list_comma_def)
qed

lemma unescape_loop_export_string:
  "unescape_loop bh (REGPROC_export_string s @ 0x22 # rest) val = (True, val @ s, rest)"
  by (induction s arbitrary: val) (simp_all add: REGPROC_export_string_def)

lemma unescape_loop_escape_string:
  "unescape_loop bh (REGPROC_escape_string s @ 0x22 # rest) val = (True, val @ s, rest)"
  by (induction s arbitrary: val) (simp_all add: REGPROC_escape_string_def)

lemma cstr_id: "0 \<notin> set s \<Longrightarrow> cstr s = s"
  by (auto simp: cstr_def)

lemma cstr_append_0: "0 \<notin> set s \<Longrightarrow> cstr (s @ 0 # t) = s"
  by (induction s) (auto simp: cstr_def)


lemma split_at_first:
  assumes "xs @ ys = l @ e # r" "\<forall>c\<in>set l. P c" "\<not> P e"
  shows "(\<forall>c\<in>set xs. P c) \<Longrightarrow> ys \<noteq> [] \<and> length xs \<le> length l"
    and "\<not> (\<forall>c\<in>set xs. P c) \<Longrightarrow> takeWhile P xs = l \<and> dropWhile P xs @ ys = e # r"
proof -
  have t: "takeWhile P (l @ e # r) = l" "dropWhile P (l @ e # r) = e # r"
    using assms(2,3) by (simp_all add: takeWhile_append2 dropWhile_append2)
  {
    assume a: "\<forall>c\<in>set xs. P c"
    then have "takeWhile P (xs @ ys) = xs @ takeWhile P ys" by (simp add: takeWhile_append2)
    then have x: "l = xs @ takeWhile P ys" using t(1) assms(1) by simp
    then have "length xs \<le> length l" by simp
    moreover have "ys \<noteq> []"
    proof
      assume "ys = []"
      then have "e \<in> set xs" using assms(1) by (metis append_Nil2 in_set_conv_decomp)
      then show False using a assms(3) by blast
    qed
    ultimately show "ys \<noteq> [] \<and> length xs \<le> length l" by simp
  }
  {
    assume a: "\<not> (\<forall>c\<in>set xs. P c)"
    then have "takeWhile P (xs @ ys) = takeWhile P xs" "dropWhile P (xs @ ys) = dropWhile P xs @ ys"
      by (auto simp: takeWhile_append1 dropWhile_append1)
    then show "takeWhile P xs = l \<and> dropWhile P xs @ ys = e # r"
      using t assms(1) by simp
  }
qed

lemma get_line_loop_eol:
  assumes "length (nxt :: wstr) < sz" "nxt @ fp = l @ e # r" "0 \<notin> set fp"
    and "\<forall>c\<in>set l. not_eol c" "\<not> not_eol e"
  shows "\<exists>sz' n' k. get_line_loop sz nxt fp = (l, sz', Some n', drop k fp) \<and> k \<le> length fp
           \<and> length n' < sz'
           \<and> (n' @ drop k fp = r \<or> (e = 0x0d \<and> r \<noteq> [] \<and> hd r = 0x0a \<and> n' @ drop k fp = tl r))"
  using assms(1,2,3)
proof (induction sz nxt fp rule: get_line_loop.induct)
  case (1 sz nxt fp)
  show ?case
  proof (cases "\<forall>c\<in>set nxt. not_eol c")
    case True
    then have p: "dropWhile not_eol nxt = []" by simp
    have f: "fp \<noteq> []" "length nxt \<le> length l"
      using split_at_first(1) [OF 1(3) assms(4,5) True] by simp_all
    define sz' where "sz' = (if sz - length nxt < 3 then sz * 2 else sz)"
    define count where "count = min (sz' - length nxt - 1) (length fp)"
    have c: "count \<noteq> 0" "length nxt + count < sz'" "count \<le> length fp"
      using f(1) 1(2) by (auto simp: count_def sz'_def)
    have cs: "cstr (take count fp) = take count fp"
      using 1(4) by (intro cstr_id) (auto dest: in_set_takeD)
    have step: "get_line_loop sz nxt fp = get_line_loop sz' (nxt @ take count fp) (drop count fp)"
      by (subst get_line_loop.simps)
         (simp only: p Let_def simp_thms if_True if_False sz'_def [symmetric] count_def [symmetric] c(1) cs)
    have "\<exists>sz'' n' k. get_line_loop sz' (nxt @ cstr (take count fp)) (drop count fp)
           = (l, sz'', Some n', drop k (drop count fp)) \<and> k \<le> length (drop count fp)
           \<and> length n' < sz''
           \<and> (n' @ drop k (drop count fp) = r
               \<or> (e = 0x0d \<and> r \<noteq> [] \<and> hd r = 0x0a \<and> n' @ drop k (drop count fp) = tl r))"
    proof (rule 1(1) [OF refl p refl sz'_def count_def c(1)])
      show "length (nxt @ cstr (take count fp)) < sz'" using c by (simp add: cs)
      show "(nxt @ cstr (take count fp)) @ drop count fp = l @ e # r" using 1(3) by (simp add: cs)
      show "0 \<notin> set (drop count fp)" using 1(4) by (auto dest: in_set_dropD)
    qed
    then obtain sz'' n' k where r: "get_line_loop sz' (nxt @ take count fp) (drop count fp)
           = (l, sz'', Some n', drop (k + count) fp)" "k \<le> length fp - count"
           "length n' < sz''"
           "n' @ drop (k + count) fp = r
               \<or> (e = 0x0d \<and> r \<noteq> [] \<and> hd r = 0x0a \<and> n' @ drop (k + count) fp = tl r)"
      by (auto simp: cs)
    show ?thesis
    proof (intro exI conjI)
      show "get_line_loop sz nxt fp = (l, sz'', Some n', drop (k + count) fp)" using step r(1) by simp
      show "k + count \<le> length fp" using r(2) c(3) by simp
      show "length n' < sz''" by (rule r(3))
      show "n' @ drop (k + count) fp = r
               \<or> (e = 0x0d \<and> r \<noteq> [] \<and> hd r = 0x0a \<and> n' @ drop (k + count) fp = tl r)" by (rule r(4))
    qed
  next
    case False
    then have p: "dropWhile not_eol nxt \<noteq> []" by simp
    have s: "takeWhile not_eol nxt = l" "dropWhile not_eol nxt @ fp = e # r"
      using split_at_first(2) [OF 1(3) assms(4,5) False] by simp_all
    obtain q where q: "dropWhile not_eol nxt = e # q" "q @ fp = r"
      using p s(2) by (cases "dropWhile not_eol nxt") auto
    have lq: "length q < sz"
    proof -
      have "length (dropWhile not_eol nxt) \<le> length nxt" by (rule length_dropWhile_le)
      then show ?thesis using 1(2) q(1) by simp
    qed
    define n' where "n' = (if e = 0x0d \<and> nthc q 0 = 0x0a then tl q else q)"
    have g: "get_line_loop sz nxt fp = (l, sz, Some n', drop 0 fp)"
      by (subst get_line_loop.simps) (simp add: q(1) s(1) Let_def n'_def drop_Suc)
    have ln: "length n' < sz" using lq by (auto simp: n'_def)
    have d: "n' @ drop 0 fp = r \<or> (e = 0x0d \<and> r \<noteq> [] \<and> hd r = 0x0a \<and> n' @ drop 0 fp = tl r)"
    proof (cases "e = 0x0d \<and> nthc q 0 = 0x0a")
      case True
      then obtain q' where "q = 0x0a # q'" by (cases q) auto
      then show ?thesis using True q(2) by (auto simp: n'_def)
    next
      case False
      then show ?thesis using q(2) by (auto simp: n'_def)
    qed
    show ?thesis using g ln d by (intro exI [of _ sz] exI [of _ n'] exI [of _ 0]) simp
  qed
qed


definition rdr3 :: "nat \<Rightarrow> wstr option \<Rightarrow> byte list \<Rightarrow> wstr \<Rightarrow> bool" where
  \<comment> \<open>the state of \<^verbatim>\<open>get_lineW\<close> in front of the text \<open>R\<close>\<close>
  "rdr3 sz nx fr R \<longleftrightarrow>
     sz \<noteq> 0 \<and> 0 \<notin> set R \<and> (\<exists>n. nx = Some n \<and> length n < sz \<and> n @ bytes_wstr fr = R)"

definition rdr :: "('r, 'h) parser \<Rightarrow> wstr \<Rightarrow> bool" where
  "rdr p R \<longleftrightarrow>
     rdr3 (if sizeW p = 0 then REG_VAL_BUF_SIZE else sizeW p)
       (if sizeW p = 0 then Some [] else nextW p) (file_rest p) R"

lemma rdr_eq:
  "sizeW p' = sizeW p \<Longrightarrow> nextW p' = nextW p \<Longrightarrow> file_rest p' = file_rest p \<Longrightarrow> rdr p' R = rdr p R"
  by (simp add: rdr_def)

lemma rdr_reader:
  "sz \<noteq> 0 \<Longrightarrow> rdr (p\<lparr>sizeW := sz, nextW := nx, file_rest := fr\<rparr>) R = rdr3 sz nx fr R"
  by (simp add: rdr_def)

lemma get_lineW_line:
  assumes "rdr p (l @ e # r)" "\<forall>c\<in>set l. not_eol c" "\<not> not_eol e"
  shows "\<exists>sz nx fr. get_lineW p = (Some l, p\<lparr>sizeW := sz, nextW := nx, file_rest := fr\<rparr>) \<and> sz \<noteq> 0
           \<and> (rdr3 sz nx fr r \<or> (e = 0x0d \<and> r \<noteq> [] \<and> hd r = 0x0a \<and> rdr3 sz nx fr (tl r)))"
proof -
  define sz0 where "sz0 = (if sizeW p = 0 then REG_VAL_BUF_SIZE else sizeW p)"
  define nx0 where "nx0 = (if sizeW p = 0 then Some [] else nextW p)"
  define F where "F = bytes_wstr (file_rest p)"
  from assms(1) obtain n where n: "sz0 \<noteq> 0" "0 \<notin> set (l @ e # r)" "nx0 = Some n" "length n < sz0"
      "n @ F = l @ e # r"
    by (auto simp: rdr_def rdr3_def sz0_def nx0_def F_def)
  have z: "0 \<notin> set F"
  proof
    assume "0 \<in> set F"
    then have "0 \<in> set (n @ F)" by simp
    then show False using n(2,5) by simp
  qed
  obtain sz' n' k where g: "get_line_loop sz0 n F = (l, sz', Some n', drop k F)" "k \<le> length F"
      "length n' < sz'"
      "n' @ drop k F = r \<or> (e = 0x0d \<and> r \<noteq> [] \<and> hd r = 0x0a \<and> n' @ drop k F = tl r)"
    using get_line_loop_eol [OF n(4,5) z assms(2,3)] by blast
  define fr where "fr = drop (2 * (length F - length (drop k F))) (file_rest p)"
  have "length F - length (drop k F) = k" using g(2) by simp
  then have fr: "bytes_wstr fr = drop k F" by (simp add: fr_def bytes_wstr_drop F_def)
  have gl: "get_lineW p = (Some l, p\<lparr>sizeW := sz', nextW := Some n', file_rest := fr\<rparr>)"
    unfolding get_lineW_def Let_def sz0_def [symmetric] nx0_def [symmetric] F_def [symmetric]
    by (simp add: n(3) g(1) fr_def)
  have "0 \<notin> set r" using n(2) by simp
  moreover have "0 \<notin> set (tl r)" using n(2) by (cases r) auto
  ultimately have "rdr3 sz' (Some n') fr r \<or> (e = 0x0d \<and> r \<noteq> [] \<and> hd r = 0x0a \<and> rdr3 sz' (Some n') fr (tl r))"
    using g(3,4) by (auto simp: rdr3_def fr)
  moreover have "sz' \<noteq> 0" using g(3) by auto
  ultimately show ?thesis using gl by blast
qed

lemma get_lineW_crlf:
  assumes "rdr p (l @ 0x0d # 0x0a # R)" "\<forall>c\<in>set l. not_eol c"
  shows "\<exists>p1. get_lineW p = (Some l, p1) \<and> (rdr p1 R \<or> rdr p1 (0x0a # R))
           \<and> (\<exists>sz nx fr. p1 = p\<lparr>sizeW := sz, nextW := nx, file_rest := fr\<rparr>)"
proof -
  obtain sz nx fr where g: "get_lineW p = (Some l, p\<lparr>sizeW := sz, nextW := nx, file_rest := fr\<rparr>)"
     "sz \<noteq> 0" "rdr3 sz nx fr (0x0a # R) \<or> rdr3 sz nx fr R"
    using get_lineW_line [OF assms(1,2), simplified not_eol_def] by auto
  then show ?thesis by (auto simp: rdr_reader)
qed

lemma get_lineW_lf:
  assumes "rdr p (0x0a # R)"
  shows "\<exists>p1. get_lineW p = (Some [], p1) \<and> rdr p1 R
           \<and> (\<exists>sz nx fr. p1 = p\<lparr>sizeW := sz, nextW := nx, file_rest := fr\<rparr>)"
proof -
  have "rdr p ([] @ 0x0a # R)" using assms by simp
  then obtain sz nx fr where g: "get_lineW p = (Some [], p\<lparr>sizeW := sz, nextW := nx, file_rest := fr\<rparr>)"
     "sz \<noteq> 0" "rdr3 sz nx fr R"
    using get_lineW_line [of p "[]" "0x0a" R] by (auto simp: not_eol_def)
  then show ?thesis by (auto simp: rdr_reader)
qed

lemma get_lineW_end:
  assumes "rdr p []"
  shows "\<exists>sz. sz \<noteq> 0 \<and> get_lineW p = (Some [], p\<lparr>sizeW := sz, nextW := None, file_rest := file_rest p\<rparr>)"
proof -
  define sz0 where "sz0 = (if sizeW p = 0 then REG_VAL_BUF_SIZE else sizeW p)"
  define nx0 where "nx0 = (if sizeW p = 0 then Some [] else nextW p)"
  from assms have n: "sz0 \<noteq> 0" "nx0 = Some []" "bytes_wstr (file_rest p) = []"
    by (auto simp: rdr_def rdr3_def sz0_def nx0_def)
  have g: "get_line_loop sz0 ([] :: wstr) [] = ([], if sz0 < 3 then sz0 * 2 else sz0, None, [])"
    by (subst get_line_loop.simps) simp
  have "get_lineW p = (Some [], p\<lparr>sizeW := (if sz0 < 3 then sz0 * 2 else sz0), nextW := None,
         file_rest := file_rest p\<rparr>)"
    unfolding get_lineW_def Let_def sz0_def [symmetric] nx0_def [symmetric]
    by (simp add: n g)
  moreover have "(if sz0 < 3 then sz0 * 2 else sz0) \<noteq> 0" using n(1) by simp
  ultimately show ?thesis by blast
qed

lemma get_lineW_done:
  "sizeW p \<noteq> 0 \<Longrightarrow> nextW p = None \<Longrightarrow> get_lineW p = (None, p\<lparr>sizeW := 0, nextW := None\<rparr>)"
  by (simp add: get_lineW_def)


definition ctx :: "('r, 'h) parser \<Rightarrow> 'r \<Rightarrow> 'h option \<Rightarrow> bool" where
  "ctx p reg h \<longleftrightarrow>
     registry p = reg \<and> hkey p = h \<and> is_unicode p \<and> reg_version p = Some REG_VERSION_50
     \<and> \<not> errno_range p"

definition at_line_start :: "('r, 'h) parser \<Rightarrow> 'r \<Rightarrow> 'h option \<Rightarrow> wstr \<Rightarrow> bool" where
  \<comment> \<open>the parser of a Unicode file of version 5 in front of the text \<open>R\<close>, between two values\<close>
  "at_line_start p reg h R \<longleftrightarrow> state p = LINE_START \<and> ctx p reg h \<and> data p = [] \<and> rdr p R"

lemma line_start_pos:
  "state p = LINE_START \<Longrightarrow> parser_main_loop os p (Some q) = parser_main_loop os p (Some [])"
  by (subst (1 2) parser_main_loop.simps) (simp add: line_start_state_def)

lemma line_start_read:
  assumes "at_line_start p reg h (l @ 0x0d # 0x0a # R)" "\<forall>c\<in>set l. not_eol c"
  shows "\<exists>p1. get_line os p = (Some l, p1) \<and> (rdr p1 R \<or> rdr p1 (0x0a # R))
           \<and> state p1 = LINE_START \<and> ctx p1 reg h \<and> data p1 = []"
proof -
  have u: "is_unicode p" and r: "rdr p (l @ 0x0d # 0x0a # R)"
    using assms(1) by (simp_all add: at_line_start_def ctx_def)
  obtain p1 sz nx fr where g: "get_lineW p = (Some l, p1)" "rdr p1 R \<or> rdr p1 (0x0a # R)"
     "p1 = p\<lparr>sizeW := sz, nextW := nx, file_rest := fr\<rparr>"
    using get_lineW_crlf [OF r assms(2)] by blast
  have "state p1 = LINE_START \<and> ctx p1 reg h \<and> data p1 = []"
    using assms(1) by (simp add: g(3) at_line_start_def ctx_def)
  then show ?thesis using g(1,2) u by (auto simp: get_line_def)
qed

lemma line_start_skip:
  assumes "state p = LINE_START" "ctx p reg h" "data p = []" "rdr p (0x0a # R)"
  shows "\<exists>p'. parser_main_loop os p (Some q) = parser_main_loop os p' (Some []) \<and> at_line_start p' reg h R"
proof -
  have u: "is_unicode p" using assms(2) by (simp add: ctx_def)
  obtain p1 sz nx fr where g: "get_lineW p = (Some [], p1)" "rdr p1 R"
     "p1 = p\<lparr>sizeW := sz, nextW := nx, file_rest := fr\<rparr>"
    using get_lineW_lf [OF assms(4)] by blast
  have a: "at_line_start p1 reg h R"
    using assms(1,2,3) g(2) by (simp add: g(3) at_line_start_def ctx_def rdr_def)
  have "parser_funcs (state p) os p q = Inr (p1, Some [])"
    using u g(1) by (simp add: assms(1) line_start_state_def get_line_def)
  then have "parser_main_loop os p (Some q) = parser_main_loop os p1 (Some [])"
    by (rule parser_main_loop_Some)
  then show ?thesis using a by blast
qed

lemma line_start_settle:
  assumes "state p = LINE_START" "ctx p reg h" "data p = []" "rdr p R \<or> rdr p (0x0a # R)"
  shows "\<exists>p'. parser_main_loop os p (Some q) = parser_main_loop os p' (Some []) \<and> at_line_start p' reg h R"
  using assms(4)
proof
  assume "rdr p R"
  then have "at_line_start p reg h R" using assms(1,2,3) by (simp add: at_line_start_def)
  then show ?thesis using line_start_pos [OF assms(1), of os q] by blast
next
  assume "rdr p (0x0a # R)"
  then show ?thesis by (rule line_start_skip [OF assms(1,2,3)])
qed

lemma blank_line:
  assumes "at_line_start p reg h (0x0d # 0x0a # R)"
  shows "\<exists>p'. parser_main_loop os p (Some q) = parser_main_loop os p' (Some []) \<and> at_line_start p' reg h R"
proof -
  have "at_line_start p reg h ([] @ 0x0d # 0x0a # R)" using assms by simp
  then obtain p1 where g: "get_line os p = (Some [], p1)" "rdr p1 R \<or> rdr p1 (0x0a # R)"
      "state p1 = LINE_START" "ctx p1 reg h" "data p1 = []"
    using line_start_read [of p reg h "[]" R os] by auto
  have s: "state p = LINE_START" using assms by (simp add: at_line_start_def)
  have "parser_funcs (state p) os p q = Inr (p1, Some [])"
    using g(1) by (simp add: s line_start_state_def)
  then have "parser_main_loop os p (Some q) = parser_main_loop os p1 (Some [])"
    by (rule parser_main_loop_Some)
  moreover obtain p' where "parser_main_loop os p1 (Some []) = parser_main_loop os p' (Some [])"
      "at_line_start p' reg h R"
    using line_start_settle [OF g(3,4,5,2)] by blast
  ultimately show ?thesis by auto
qed

definition close_reg :: "('r, 'h) winapi \<Rightarrow> 'r \<Rightarrow> 'h option \<Rightarrow> 'r" where
  "close_reg os reg h = (case h of None \<Rightarrow> reg | Some k \<Rightarrow> RegCloseKey os reg k)"

lemma end_of_text:
  assumes "at_line_start p reg h []"
  shows "\<exists>p'. parser_main_loop os p (Some q) = Some (Inr p') \<and> reg_version p' = Some REG_VERSION_50
           \<and> registry (close_key os p') = close_reg os reg h"
proof -
  have s: "state p = LINE_START" and u: "is_unicode p" and r: "rdr p []"
    using assms by (simp_all add: at_line_start_def ctx_def)
  obtain sz where g: "sz \<noteq> 0"
      "get_lineW p = (Some [], p\<lparr>sizeW := sz, nextW := None, file_rest := file_rest p\<rparr>)"
    using get_lineW_end [OF r] by blast
  define p1 where "p1 = p\<lparr>sizeW := sz, nextW := None, file_rest := file_rest p\<rparr>"
  define p2 where "p2 = p1\<lparr>sizeW := 0, nextW := None\<rparr>"
  have "parser_funcs (state p) os p q = Inr (p1, Some [])"
    using u g(2) by (simp add: s line_start_state_def get_line_def p1_def)
  then have 1: "parser_main_loop os p (Some q) = parser_main_loop os p1 (Some [])"
    by (rule parser_main_loop_Some)
  have "get_lineW p1 = (None, p2)"
    unfolding p2_def using g(1) by (intro get_lineW_done) (simp_all add: p1_def)
  then have "parser_funcs (state p1) os p1 [] = Inr (p2, None)"
    using u s by (simp add: p1_def line_start_state_def get_line_def)
  then have 2: "parser_main_loop os p1 (Some []) = parser_main_loop os p2 None"
    by (rule parser_main_loop_Some)
  have "reg_version p2 = Some REG_VERSION_50" "registry (close_key os p2) = close_reg os reg h"
    using assms by (auto simp: p2_def p1_def at_line_start_def ctx_def close_key_def close_reg_def
        split: option.splits)
  then show ?thesis using 1 2 by (simp add: parser_main_loop_None)
qed


fun class_name :: "hkey_class \<Rightarrow> wstr" where
  "class_name HKEY_LOCAL_MACHINE = W ''HKEY_LOCAL_MACHINE''"
| "class_name HKEY_USERS = W ''HKEY_USERS''"
| "class_name HKEY_CLASSES_ROOT = W ''HKEY_CLASSES_ROOT''"
| "class_name HKEY_CURRENT_CONFIG = W ''HKEY_CURRENT_CONFIG''"
| "class_name HKEY_CURRENT_USER = W ''HKEY_CURRENT_USER''"
| "class_name HKEY_DYN_DATA = W ''HKEY_DYN_DATA''"

definition key_path :: "hkey_class \<Rightarrow> wstr option \<Rightarrow> wstr" where
  \<comment> \<open>the name of a key: its root class and the path below it, if any\<close>
  "key_path c sp = class_name c @ (case sp of None \<Rightarrow> [] | Some s \<Rightarrow> 0x5c # s)"

lemma parse_key_name_loop_key_path:
  "parse_key_name_loop (zip reg_class_namesW reg_class_keys) (key_path c sp) = Some c"
  by (cases c; cases sp)
     (simp_all add: key_path_def reg_class_namesW_def reg_class_keys_def W_def tolowerW_def)

lemma strchr_tail_key_path: "strchr_tail 0x5c (key_path c sp) = sp"
  by (cases c; cases sp) (simp_all add: key_path_def strchr_tail_def W_def)

lemma parse_key_name_key_path: "parse_key_name (key_path c sp) = (Some c, sp)"
  by (simp add: parse_key_name_def parse_key_name_loop_key_path strchr_tail_key_path)

lemma key_path_head:
  "key_path c sp \<noteq> []" "nthc (key_path c sp) 0 \<noteq> 0x20" "nthc (key_path c sp) 0 \<noteq> 0x09"
  "nthc (key_path c sp) 0 \<noteq> 0x2d"
  by (cases c; simp add: key_path_def W_def)+

lemma strrchr_head_last: "strrchr_head c (s @ [c]) = s"
  by (simp add: strrchr_head_def)

lemma parse_file_header_50:
  "parse_file_header (W ''Windows Registry Editor Version 5.00'') = REG_VERSION_50"
  by (simp add: parse_file_header_def W_def blank_def)


lemma W_no_NUL: "(0 :: wchar) \<notin> set (W ''Windows Registry Editor Version 5.00'')"
  by (simp add: W_def)

lemma W_header_not_eol: "\<forall>c\<in>set (W ''Windows Registry Editor Version 5.00''). not_eol c"
  by (simp add: W_def not_eol_def)

lemma import_header_50:
  assumes "0 \<notin> set T"
  defines "bytes \<equiv> [0xff, 0xfe] @ wstr_bytes (W ''Windows Registry Editor Version 5.00'' @ 0x0d # 0x0a # T)"
  shows "\<exists>p'. parser_main_loop os (parser_init reg bytes) (Some [ucast (bytes ! 0), ucast (bytes ! 1)])
              = parser_main_loop os p' (Some [])
            \<and> at_line_start p' reg None T"
proof -
  define hdr where "hdr = W ''Windows Registry Editor Version 5.00''"
  define p0 :: "('a, 'b) parser" where "p0 = parser_init reg bytes"
  have f: "file_rest p0 = wstr_bytes (hdr @ 0x0d # 0x0a # T)" "is_unicode p0" "sizeW p0 = 0"
      "state p0 = HEADER" "registry p0 = reg" "hkey p0 = None" "\<not> errno_range p0" "data p0 = []"
    by (simp_all add: p0_def parser_init_def bytes_def hdr_def)
  have "rdr p0 (hdr @ 0x0d # 0x0a # T)"
    using assms(1) W_no_NUL
    by (simp add: rdr_def rdr3_def f REG_VAL_BUF_SIZE_def hdr_def del: wstr_bytes_append)
  then obtain p1 sz nx fr where g: "get_lineW p0 = (Some hdr, p1)" "rdr p1 T \<or> rdr p1 (0x0a # T)"
     "p1 = p0\<lparr>sizeW := sz, nextW := nx, file_rest := fr\<rparr>"
    using get_lineW_crlf [of p0 hdr T] W_header_not_eol by (auto simp: hdr_def)
  define p2 where "p2 = set_state (p1\<lparr>reg_version := Some REG_VERSION_50\<rparr>) LINE_START"
  have "header_state os p0 q = Inr (p2, Some hdr)" for q
    using g(1) f(2) parse_file_header_50
    by (simp add: header_state_def get_line_def g(3) Let_def hdr_def p2_def)
  then have "parser_funcs (state p0) os p0 q = Inr (p2, Some hdr)" for q
    by (simp add: f(4))
  then have 1: "parser_main_loop os p0 (Some q) = parser_main_loop os p2 (Some hdr)" for q
    by (rule parser_main_loop_Some)
  have s: "state p2 = LINE_START" "ctx p2 reg None" "data p2 = []"
    using f by (simp_all add: p2_def g(3) ctx_def set_state_def)
  have "rdr p2 X = rdr p1 X" for X
    by (rule rdr_eq) (simp_all add: p2_def set_state_def)
  then have r: "rdr p2 T \<or> rdr p2 (0x0a # T)"
    using g(2) by simp
  obtain p' where "parser_main_loop os p2 (Some hdr) = parser_main_loop os p' (Some [])"
      "at_line_start p' reg None T"
    using line_start_settle [OF s r] by blast
  then show ?thesis using 1 by (auto simp: p0_def)
qed

lemma key_line:
  assumes "at_line_start p reg h (0x5b # key_path c sp @ 0x5d # 0x0d # 0x0a # R)"
    and "\<forall>x\<in>set (key_path c sp). not_eol x"
    and "RegCreateKeyExW os (close_reg os reg h) c sp = (h', reg')"
  shows "\<exists>p'. parser_main_loop os p (Some q) = parser_main_loop os p' (Some [])
            \<and> at_line_start p' reg' h' R"
proof -
  define l where "l = 0x5b # key_path c sp @ [0x5d]"
  have a: "at_line_start p reg h (l @ 0x0d # 0x0a # R)" using assms(1) by (simp add: l_def)
  have e: "\<forall>x\<in>set l. not_eol x" using assms(2) by (simp add: l_def not_eol_def)
  obtain p1 where g: "get_line os p = (Some l, p1)" "rdr p1 R \<or> rdr p1 (0x0a # R)"
      "state p1 = LINE_START" "ctx p1 reg h" "data p1 = []"
    using line_start_read [OF a e] by blast
  have s: "state p = LINE_START" using assms(1) by (simp add: at_line_start_def)
  have "parser_funcs (state p) os p q = Inr (set_state p1 KEY_NAME, Some (key_path c sp @ [0x5d]))"
    using g(1) by (simp add: s line_start_state_def l_def blank_def)
  then have 1: "parser_main_loop os p (Some q)
      = parser_main_loop os (set_state p1 KEY_NAME) (Some (key_path c sp @ [0x5d]))"
    by (rule parser_main_loop_Some)
  define p2 where "p2 = set_state (snd (open_key os (set_state p1 KEY_NAME) (key_path c sp))) LINE_START"
  have n0: "nthc (key_path c sp @ [0x5d]) 0 = nthc (key_path c sp) 0"
    using key_path_head(1) [of c sp] by (cases "key_path c sp") simp_all
  have "key_name_state os (set_state p1 KEY_NAME) (key_path c sp @ [0x5d]) = Inr (p2, Some (key_path c sp))"
    using key_path_head [of c sp]
    by (simp add: key_name_state_def n0 strrchr_head_last Let_def p2_def)
  then have "parser_funcs (state (set_state p1 KEY_NAME)) os (set_state p1 KEY_NAME) (key_path c sp @ [0x5d])
      = Inr (p2, Some (key_path c sp))"
    by simp
  then have 2: "parser_main_loop os (set_state p1 KEY_NAME) (Some (key_path c sp @ [0x5d]))
      = parser_main_loop os p2 (Some (key_path c sp))"
    by (rule parser_main_loop_Some)
  have c1: "registry (close_key os (set_state p1 KEY_NAME)) = close_reg os reg h"
    using g(4) by (auto simp: close_key_def close_reg_def ctx_def set_state_def split: option.splits)
  have p2: "state p2 = LINE_START \<and> ctx p2 reg' h' \<and> data p2 = []"
    using g(4,5) assms(3) c1
    by (auto simp: p2_def open_key_def parse_key_name_key_path Let_def ctx_def set_state_def
        close_key_def split: option.splits prod.splits)
  have "rdr p2 X = rdr p1 X" for X
    by (rule rdr_eq)
       (auto simp: p2_def open_key_def parse_key_name_key_path Let_def set_state_def
        close_key_def split: option.splits prod.splits)
  then have "rdr p2 R \<or> rdr p2 (0x0a # R)" using g(2) by simp
  with p2 obtain p' where "parser_main_loop os p2 (Some (key_path c sp)) = parser_main_loop os p' (Some [])"
      "at_line_start p' reg' h' R"
    using line_start_settle [of p2 reg' h' R os "key_path c sp"] by auto
  then show ?thesis using 1 2 by auto
qed


subsection \<open>The forms of a rendered value\<close>

text \<open>
  The text forms of the data of a value as the specification words them, to compare with
  what the export writes: \<open>quoted_text\<close> is the double-quoted string in which line feed,
  carriage return, backslash and double quote are written as a backslash followed by
  \<^verbatim>\<open>n\<close>, by \<^verbatim>\<open>r\<close>, by a backslash and by a double quote; \<open>hex_prefix\<close> is \<^verbatim>\<open>hex:\<close> for
  \<^verbatim>\<open>REG_BINARY\<close> and \<^verbatim>\<open>hex(\<close>, the type in hexadecimal digits and \<^verbatim>\<open>):\<close> for another type;
  \<open>hex_list\<close> above is the list of the bytes, two hexadecimal digits each, with a comma
  between two of them; and \<open>unfold_hex\<close> takes the continuation marks (backslash, CR, LF
  and two spaces) out of a text.
\<close>

definition string_data :: "byte list \<Rightarrow> bool" where
  \<comment> \<open>the data of a terminated wide string, as the guard of \<^verbatim>\<open>export_hkey\<close> tests it\<close>
  "string_data d \<longleftrightarrow> 2 \<le> length d \<and> length d mod 2 = 0 \<and> last (bytes_wstr d) = 0"



definition hex_prefix :: "dword \<Rightarrow> wstr" where
  "hex_prefix ty = (if ty = REG_BINARY then W ''hex:'' else W ''hex('' @ fmt_x ty @ W ''):'')"







lemma export_hex_data_text:
  assumes "bs = (if \<not> unicode \<and> (ty = REG_EXPAND_SZ \<or> ty = REG_MULTI_SZ)
                 then GetMultiByteStringN os (bytes_wstr d) else d)"
  shows "case export_hex_data os ty n d unicode of (w, r) \<Rightarrow>
           concat w @ r = hex_prefix ty @ (if bs = [] then empty_block os
                                           else export_binary_loop bs (n + length (hex_prefix ty)))"
proof (cases "bs = []")
  case True
  then show ?thesis using assms
    by (simp add: export_hex_data_def export_hex_data_type_def hex_prefix_def Let_def)
next
  case False
  obtain w r where l: "export_hex_loop bs (n + length (hex_prefix ty)) [] = (w, r)"
    by (cases "export_hex_loop bs (n + length (hex_prefix ty)) []")
  have "concat w @ r = export_binary_loop bs (n + length (hex_prefix ty))"
    using export_hex_loop_text [OF l] by simp
  then show ?thesis using assms False l
    by (simp add: export_hex_data_def export_hex_data_type_def hex_prefix_def Let_def)
qed







definition value_name_of :: "wstr \<Rightarrow> wstr option" where
  \<comment> \<open>the value name that an import hands to \<^verbatim>\<open>RegSetValueExW\<close> for the name of a value:
      \<^verbatim>\<open>NULL\<close> for the default value\<close>
  "value_name_of name = (if name = [] then None else Some name)"

lemma not_eol_set: "(\<forall>c\<in>set s. not_eol c) \<longleftrightarrow> 0x0d \<notin> set s \<and> 0x0a \<notin> set s"
  by (auto simp: not_eol_def)

lemma escape_string_no_LF: "0x0a \<notin> set (REGPROC_escape_string s)"
  by (induction s) (auto simp: REGPROC_escape_string_def)

lemma escape_string_not_eol: "\<forall>c\<in>set (REGPROC_escape_string s). not_eol c"
  unfolding not_eol_set using escape_string_no_CR [of s] escape_string_no_LF [of s] by simp

lemma export_string_no_CR: "0x0d \<notin> set (REGPROC_export_string s)"
  by (induction s) (auto simp: REGPROC_export_string_def)

lemma export_string_no_LF: "0x0a \<notin> set (REGPROC_export_string s)"
  by (induction s) (auto simp: REGPROC_export_string_def)

lemma export_string_not_eol: "\<forall>c\<in>set (REGPROC_export_string s). not_eol c"
  unfolding not_eol_set using export_string_no_CR [of s] export_string_no_LF [of s] by simp

lemma escape_string_no_NUL: "0 \<notin> set (REGPROC_escape_string s)"
  by (induction s) (auto simp: REGPROC_escape_string_def)

lemma export_string_no_NUL: "0 \<notin> set s \<Longrightarrow> 0 \<notin> set (REGPROC_export_string s)"
  by (induction s) (auto simp: REGPROC_export_string_def)

lemma name_part_cases:
  assumes "0 \<notin> set name"
  shows "concat (fst (export_value_name name))
     = (if name = [] then [0x40, 0x3d] else 0x22 # REGPROC_escape_string name @ [0x22, 0x3d])"
proof (cases name)
  case Nil
  then show ?thesis by (simp add: export_value_name_def W_def)
next
  case (Cons c cs)
  then have "c \<noteq> 0" using assms by auto
  then show ?thesis using Cons by (simp add: export_value_name_def Let_def)
qed

lemma name_part_not_eol: "\<forall>c\<in>set (concat (fst (export_value_name name))). not_eol c"
  unfolding not_eol_set using escape_string_no_CR [of name] escape_string_no_LF [of name]
  by (simp add: export_value_name_def Let_def W_def)

lemma name_part_no_NUL: "0 \<notin> set (concat (fst (export_value_name name)))"
  using escape_string_no_NUL [of name]
  by (simp add: export_value_name_def Let_def W_def)

lemma value_head:
  fixes os :: "('r, 'h) winapi"
  assumes a: "at_line_start p reg h (concat (fst (export_value_name name)) @ D @ 0x0d # 0x0a # R)"
    and nm: "0 \<notin> set name"
    and D: "D \<noteq> []" "\<not> blank (hd D)" "hd D \<noteq> 0x2d" "\<not> blank (last D)" "\<forall>c\<in>set D. not_eol c"
  shows "\<exists>p1. parser_main_loop os p (Some q) = parser_main_loop os p1 (Some D)
            \<and> state p1 = DATA_TYPE \<and> ctx p1 reg h \<and> data p1 = []
            \<and> value_name p1 = value_name_of name \<and> (rdr p1 R \<or> rdr p1 (0x0a # R))"
proof -
  let ?N = "concat (fst (export_value_name name))"
  have a': "at_line_start p reg h ((?N @ D) @ 0x0d # 0x0a # R)" using a by simp
  have e: "\<forall>c\<in>set (?N @ D). not_eol c" using name_part_not_eol [of name] D(5) by auto
  obtain p0 where g: "get_line os p = (Some (?N @ D), p0)" "rdr p0 R \<or> rdr p0 (0x0a # R)"
      "state p0 = LINE_START" "ctx p0 reg h" "data p0 = []"
    using line_start_read [OF a' e] by blast
  have s: "state p = LINE_START" using a by (simp add: at_line_start_def)
  define p2 where "p2 = set_state (p0\<lparr>value_name := value_name_of name\<rparr>) DATA_START"
  have 12: "parser_main_loop os p (Some q) = parser_main_loop os p2 (Some (0x3d # D))"
  proof (cases "name = []")
    case True
    then have N: "?N = [0x40, 0x3d]" using name_part_cases [OF nm] by simp
    have "parser_funcs (state p) os p q = Inr (set_state p0 DEFAULT_VALUE_NAME, Some (0x40 # 0x3d # D))"
      using g(1) by (simp add: s line_start_state_def N blank_def)
    then have 1: "parser_main_loop os p (Some q)
        = parser_main_loop os (set_state p0 DEFAULT_VALUE_NAME) (Some (0x40 # 0x3d # D))"
      by (rule parser_main_loop_Some)
    have "parser_funcs (state (set_state p0 DEFAULT_VALUE_NAME)) os (set_state p0 DEFAULT_VALUE_NAME)
         (0x40 # 0x3d # D) = Inr (p2, Some (0x3d # D))"
      using True by (simp add: default_value_name_state_def p2_def value_name_of_def set_state_def)
    then have "parser_main_loop os (set_state p0 DEFAULT_VALUE_NAME) (Some (0x40 # 0x3d # D))
        = parser_main_loop os p2 (Some (0x3d # D))"
      by (rule parser_main_loop_Some)
    then show ?thesis using 1 by simp
  next
    case False
    then have N: "?N = 0x22 # REGPROC_escape_string name @ [0x22, 0x3d]"
      using name_part_cases [OF nm] by simp
    let ?pos = "REGPROC_escape_string name @ 0x22 # 0x3d # D"
    have "parser_funcs (state p) os p q = Inr (set_state p0 QUOTED_VALUE_NAME, Some ?pos)"
      using g(1) by (simp add: s line_start_state_def N blank_def)
    then have 1: "parser_main_loop os p (Some q)
        = parser_main_loop os (set_state p0 QUOTED_VALUE_NAME) (Some ?pos)"
      by (rule parser_main_loop_Some)
    have u: "REGPROC_unescape_string os ?pos = (True, name, 0x3d # D)"
      using unescape_loop_escape_string [of _ name "0x3d # D" "[]"] cstr_id [OF nm]
      by (simp add: REGPROC_unescape_string_def)
    have "parser_funcs (state (set_state p0 QUOTED_VALUE_NAME)) os (set_state p0 QUOTED_VALUE_NAME) ?pos
        = Inr (p2, Some (0x3d # D))"
      using False by (simp add: quoted_value_name_state_def u p2_def value_name_of_def set_state_def)
    then have "parser_main_loop os (set_state p0 QUOTED_VALUE_NAME) (Some ?pos)
        = parser_main_loop os p2 (Some (0x3d # D))"
      by (rule parser_main_loop_Some)
    then show ?thesis using 1 by simp
  qed
  have "data_start_state os p2 ([] @ 0x3d # [] @ D @ []) = Inr (set_state p2 DATA_TYPE, Some D)"
    using D by (intro data_start_state_trailing) simp_all
  then have "parser_funcs (state p2) os p2 (0x3d # D) = Inr (set_state p2 DATA_TYPE, Some D)"
    by (simp add: p2_def)
  then have 3: "parser_main_loop os p2 (Some (0x3d # D)) = parser_main_loop os (set_state p2 DATA_TYPE) (Some D)"
    by (rule parser_main_loop_Some)
  have r: "rdr (set_state p2 DATA_TYPE) X = rdr p0 X" for X
    by (rule rdr_eq) (simp_all add: p2_def set_state_def)
  have "state (set_state p2 DATA_TYPE) = DATA_TYPE \<and> ctx (set_state p2 DATA_TYPE) reg h
      \<and> data (set_state p2 DATA_TYPE) = [] \<and> value_name (set_state p2 DATA_TYPE) = value_name_of name"
    using g(4,5) by (simp add: p2_def set_state_def ctx_def)
  then show ?thesis using 12 3 g(2) r by (intro exI [of _ "set_state p2 DATA_TYPE"]) simp
qed


lemma set_value_finish:
  fixes os :: "('r, 'h) winapi"
  assumes "state p = SET_VALUE" "ctx p reg h" "rdr p R \<or> rdr p (0x0a # R)"
  shows "\<exists>p'. parser_main_loop os p (Some q) = parser_main_loop os p' (Some [])
            \<and> at_line_start p' (RegSetValueExW os reg h (value_name p) (data_type p) (data p)) h R"
proof -
  define p2 where "p2 = set_state (free_parser_data
      (p\<lparr>registry := RegSetValueExW os (registry p) (hkey p) (value_name p) (data_type p) (data p)\<rparr>))
      LINE_START"
  have v: "reg_version p = Some REG_VERSION_50" using assms(2) by (simp add: ctx_def)
  have "parser_funcs (state p) os p q = Inr (p2, Some q)"
    by (simp add: assms(1) set_value_state_def Let_def p2_def free_parser_data_def v)
  then have 1: "parser_main_loop os p (Some q) = parser_main_loop os p2 (Some q)"
    by (rule parser_main_loop_Some)
  have s: "state p2 = LINE_START" "data p2 = []"
      "ctx p2 (RegSetValueExW os reg h (value_name p) (data_type p) (data p)) h"
    using assms(2) by (simp_all add: p2_def set_state_def free_parser_data_def ctx_def)
  have "rdr p2 X = rdr p X" for X
    by (rule rdr_eq) (simp_all add: p2_def set_state_def free_parser_data_def)
  then have r: "rdr p2 R \<or> rdr p2 (0x0a # R)" using assms(3) by simp
  obtain p' where "parser_main_loop os p2 (Some q) = parser_main_loop os p' (Some [])"
      "at_line_start p' (RegSetValueExW os reg h (value_name p) (data_type p) (data p)) h R"
    using line_start_settle [OF s(1,3,2) r] by blast
  then show ?thesis using 1 by auto
qed

lemma parse_data_type_quote:
  "parse_data_type p (0x22 # rest) = (True, p\<lparr>parse_type := REG_SZ, data_type := REG_SZ\<rparr>, rest)"
  by (simp add: parse_data_type_def data_types_def)

lemma string_value:
  fixes os :: "('r, 'h) winapi"
  assumes "state p = DATA_TYPE" "ctx p reg h" "rdr p R \<or> rdr p (0x0a # R)" "0 \<notin> set s"
  shows "\<exists>p'. parser_main_loop os p (Some (0x22 # REGPROC_export_string s @ [0x22]))
              = parser_main_loop os p' (Some [])
            \<and> at_line_start p' (RegSetValueExW os reg h (value_name p) REG_SZ (wstr_bytes (s @ [0]))) h R"
proof -
  define p1 where "p1 = set_state (p\<lparr>parse_type := REG_SZ, data_type := REG_SZ\<rparr>) STRING_DATA"
  define p2 where "p2 = set_state (p1\<lparr>data := wstr_bytes (s @ [0])\<rparr>) SET_VALUE"
  have "parser_funcs (state p) os p (0x22 # REGPROC_export_string s @ [0x22])
      = Inr (p1, Some (REGPROC_export_string s @ [0x22]))"
    by (simp add: assms(1) data_type_state_def parse_data_type_quote p1_def)
  then have 1: "parser_main_loop os p (Some (0x22 # REGPROC_export_string s @ [0x22]))
      = parser_main_loop os p1 (Some (REGPROC_export_string s @ [0x22]))"
    by (rule parser_main_loop_Some)
  have u: "REGPROC_unescape_string os (REGPROC_export_string s @ [0x22]) = (True, s, [])"
    using unescape_loop_export_string [of _ s "[]" "[]"] cstr_id [OF assms(4)]
    by (simp add: REGPROC_unescape_string_def)
  have "parser_funcs (state p1) os p1 (REGPROC_export_string s @ [0x22]) = Inr (p2, Some [])"
    by (simp add: p1_def string_data_state_def u p2_def)
  then have 2: "parser_main_loop os p1 (Some (REGPROC_export_string s @ [0x22]))
      = parser_main_loop os p2 (Some [])"
    by (rule parser_main_loop_Some)
  have s: "state p2 = SET_VALUE" "ctx p2 reg h" "value_name p2 = value_name p" "data_type p2 = REG_SZ"
      "data p2 = wstr_bytes (s @ [0])"
    using assms(2) by (simp_all add: p2_def p1_def set_state_def ctx_def)
  have "rdr p2 X = rdr p X" for X
    by (rule rdr_eq) (simp_all add: p2_def p1_def set_state_def)
  then have r: "rdr p2 R \<or> rdr p2 (0x0a # R)" using assms(3) by simp
  show ?thesis using set_value_finish [OF s(1,2) r, of os "[]"] 1 2 s(3,4,5) by auto
qed

lemma dword_value:
  fixes os :: "('r, 'h) winapi"
  assumes "state p = DATA_TYPE" "ctx p reg h" "rdr p R \<or> rdr p (0x0a # R)"
  shows "\<exists>p'. parser_main_loop os p (Some (W ''dword:'' @ fmt_08x v))
              = parser_main_loop os p' (Some [])
            \<and> at_line_start p' (RegSetValueExW os reg h (value_name p) REG_DWORD (dword_bytes v)) h R"
proof -
  define p1 where "p1 = set_state (p\<lparr>parse_type := REG_DWORD, data_type := REG_DWORD\<rparr>) DWORD_DATA"
  define p2 where "p2 = set_state (p1\<lparr>data := dword_bytes v\<rparr>) SET_VALUE"
  have "parser_funcs (state p) os p (W ''dword:'' @ fmt_08x v) = Inr (p1, Some (fmt_08x v))"
    by (simp add: assms(1) data_type_state_def parse_data_type_dword p1_def)
  then have 1: "parser_main_loop os p (Some (W ''dword:'' @ fmt_08x v))
      = parser_main_loop os p1 (Some (fmt_08x v))"
    by (rule parser_main_loop_Some)
  have "parser_funcs (state p1) os p1 (fmt_08x v) = Inr (p2, Some (fmt_08x v))"
    by (simp add: p1_def dword_data_state_def convert_hex_to_dword_fmt_08x p2_def)
  then have 2: "parser_main_loop os p1 (Some (fmt_08x v)) = parser_main_loop os p2 (Some (fmt_08x v))"
    by (rule parser_main_loop_Some)
  have s: "state p2 = SET_VALUE" "ctx p2 reg h" "value_name p2 = value_name p" "data_type p2 = REG_DWORD"
      "data p2 = dword_bytes v"
    using assms(2) by (simp_all add: p2_def p1_def set_state_def ctx_def)
  have "rdr p2 X = rdr p X" for X
    by (rule rdr_eq) (simp_all add: p2_def p1_def set_state_def)
  then have r: "rdr p2 R \<or> rdr p2 (0x0a # R)" using assms(3) by simp
  show ?thesis using set_value_finish [OF s(1,2) r, of os "fmt_08x v"] 1 2 s(3,4,5) by auto
qed


lemma tolowerW_x: "c \<noteq> 0x78 \<Longrightarrow> c \<noteq> 0x58 \<Longrightarrow> tolowerW c \<noteq> 0x78"
proof -
  assume a: "c \<noteq> 0x78" "c \<noteq> 0x58"
  have "c + 0x20 = 0x78 \<Longrightarrow> c = 0x58"
  proof -
    assume "c + 0x20 = 0x78"
    then have "c + 0x20 - 0x20 = 0x78 - 0x20" by simp
    then show "c = 0x58" by simp
  qed
  then show ?thesis using a by (auto simp: tolowerW_def)
qed

lemma parse_data_type_hex_prefix:
  assumes "\<not> errno_range p"
  shows "parse_data_type p (hex_prefix ty @ rest)
     = (True, p\<lparr>parse_type := REG_BINARY, data_type := ty\<rparr>, rest)"
proof (cases "ty = REG_BINARY")
  case True
  then show ?thesis using parse_data_type_hex [of p rest] by (simp add: hex_prefix_def)
next
  case False
  let ?l = "fmt_x ty @ 0x29 # 0x3a # rest"
  have l: "?l \<noteq> []" "tolowerW (nthc ?l (Suc 0)) \<noteq> 0x78"
    using fmt_x_head(2,3) [of ty "0x3a # rest"] tolowerW_x by simp_all
  have s: "strtoul16 ?l = \<lparr>value_of = ty, used = length (fmt_x ty), erange = False\<rparr>"
    by (rule strtoul16_fmt_x)
  have "hex_prefix ty @ rest = W ''hex('' @ ?l" using False by (simp add: hex_prefix_def W_def)
  moreover have "parse_data_type p (W ''hex('' @ ?l)
      = (True, p\<lparr>parse_type := REG_BINARY, data_type := ty\<rparr>, rest)"
    using l assms
    by (simp add: parse_data_type_def data_types_def W_def s Let_def)
  ultimately show ?thesis by simp
qed

lemma split_crlf_unique:
  assumes "l @ 0x0d # 0x0a # R = l' @ 0x0d # 0x0a # R'"
    and "\<forall>c\<in>set l. not_eol c" "\<forall>c\<in>set l'. not_eol c"
  shows "l = l' \<and> R = R'"
proof -
  have "takeWhile not_eol (l @ 0x0d # 0x0a # R) = l" "takeWhile not_eol (l' @ 0x0d # 0x0a # R') = l'"
    using assms(2,3) by (simp_all add: takeWhile_append2 not_eol_def)
  then have "l = l'" using assms(1) by simp
  then show ?thesis using assms(1) by simp
qed

lemma fmt_02x_chars:
  "fmt_02x b = [c1, c2] \<Longrightarrow> isxdigitW c1 \<and> not_eol c1 \<and> not_eol c2 \<and> c1 \<noteq> 0 \<and> c2 \<noteq> 0"
proof -
  have r: "0 \<le> uint b div 16" "uint b div 16 < 16" "0 \<le> uint b mod 16" "uint b mod 16 < 16"
    using uint_lt2p [of b] by (auto simp: pos_imp_zdiv_nonneg_iff)
  assume "fmt_02x b = [c1, c2]"
  then have "c1 = hexdig (uint b div 16)" "c2 = hexdig (uint b mod 16)" by (simp_all add: fmt_02x_def)
  then show ?thesis
    using hexdig_facts(1) [OF r(1,2)] hexdig_not_special(1,2,4) [OF r(1,2)]
      hexdig_not_special(1,2,4) [OF r(3,4)]
    by (simp add: not_eol_def)
qed

lemma fmt_02x_two: "\<exists>c1 c2. fmt_02x b = [c1, c2]"
  by (simp add: fmt_02x_def)

lemma hex_list_not_eol: "\<forall>c\<in>set (hex_list bs). not_eol c"
proof (induction bs rule: hex_list.induct)
  case (2 b)
  obtain c1 c2 where c: "fmt_02x b = [c1, c2]" using fmt_02x_two by blast
  then show ?case using fmt_02x_chars [OF c] by simp
next
  case (3 b b' bs)
  obtain c1 c2 where c: "fmt_02x b = [c1, c2]" using fmt_02x_two by blast
  then show ?case using fmt_02x_chars [OF c] 3 by (simp add: not_eol_def)
qed simp

lemma hex_list_comma_not_eol: "\<forall>c\<in>set (hex_list_comma bs). not_eol c"
proof (induction bs)
  case (Cons b bs)
  obtain c1 c2 where c: "fmt_02x b = [c1, c2]" using fmt_02x_two by blast
  then show ?case using fmt_02x_chars [OF c] Cons by (simp add: hex_list_comma_def not_eol_def)
qed (simp add: hex_list_comma_def)

lemma hex_list_head: "bs \<noteq> [] \<Longrightarrow> hex_list bs \<noteq> [] \<and> isxdigitW (hd (hex_list bs))"
proof (induction bs rule: hex_list.induct)
  case (2 b)
  obtain c1 c2 where c: "fmt_02x b = [c1, c2]" using fmt_02x_two by blast
  then show ?case using fmt_02x_chars [OF c] by simp
next
  case (3 b b' bs)
  obtain c1 c2 where c: "fmt_02x b = [c1, c2]" using fmt_02x_two by blast
  then show ?case using fmt_02x_chars [OF c] by simp
qed simp

lemma hex_list_comma_head:
  "bs \<noteq> [] \<Longrightarrow> hex_list_comma bs @ t \<noteq> [] \<and> isxdigitW (hd (hex_list_comma bs @ t))"
proof (cases bs)
  case (Cons b bs')
  obtain c1 c2 where c: "fmt_02x b = [c1, c2]" using fmt_02x_two by blast
  then show ?thesis using fmt_02x_chars [OF c] Cons by (simp add: hex_list_comma_def)
qed simp

lemma hex_first_line:
  "\<exists>line1 R1. export_binary_loop bs c @ 0x0d # 0x0a # R = line1 @ 0x0d # 0x0a # R1
     \<and> (\<forall>x\<in>set line1. not_eol x)
     \<and> (bs \<noteq> [] \<longrightarrow> line1 \<noteq> [] \<and> isxdigitW (hd line1))
     \<and> ((line1 = hex_list bs \<and> R1 = R)
        \<or> (\<exists>bs1 bs2. bs = bs1 @ bs2 \<and> bs2 \<noteq> [] \<and> length bs2 < length bs
              \<and> line1 = hex_list_comma bs1 @ [0x5c]
              \<and> R1 = 0x20 # 0x20 # export_binary_loop bs2 2 @ 0x0d # 0x0a # R))"
proof -
  from export_binary_loop_split [of bs c] show ?thesis
  proof
    assume e: "export_binary_loop bs c = hex_list bs"
    show ?thesis
    proof (intro exI conjI)
      show "export_binary_loop bs c @ 0x0d # 0x0a # R = hex_list bs @ 0x0d # 0x0a # R" by (simp add: e)
      show "\<forall>x\<in>set (hex_list bs). not_eol x" by (rule hex_list_not_eol)
      show "bs \<noteq> [] \<longrightarrow> hex_list bs \<noteq> [] \<and> isxdigitW (hd (hex_list bs))" using hex_list_head by blast
      show "(hex_list bs = hex_list bs \<and> R = R)
        \<or> (\<exists>bs1 bs2. bs = bs1 @ bs2 \<and> bs2 \<noteq> [] \<and> length bs2 < length bs
              \<and> hex_list bs = hex_list_comma bs1 @ [0x5c]
              \<and> R = 0x20 # 0x20 # export_binary_loop bs2 2 @ 0x0d # 0x0a # R)" by simp
    qed
  next
    assume "\<exists>bs1 bs2. bs = bs1 @ bs2 \<and> bs2 \<noteq> [] \<and> length bs2 < length bs
         \<and> export_binary_loop bs c = hex_list_comma bs1 @ hex_concat @ export_binary_loop bs2 2"
    then obtain bs1 bs2 where x: "bs = bs1 @ bs2" "bs2 \<noteq> []" "length bs2 < length bs"
        "export_binary_loop bs c = hex_list_comma bs1 @ hex_concat @ export_binary_loop bs2 2"
      by blast
    have ne: "bs1 \<noteq> []" using x(1,3) by auto
    show ?thesis
    proof (intro exI conjI)
      show "export_binary_loop bs c @ 0x0d # 0x0a # R
          = (hex_list_comma bs1 @ [0x5c]) @ 0x0d # 0x0a # (0x20 # 0x20 # export_binary_loop bs2 2 @ 0x0d # 0x0a # R)"
        by (simp add: x(4) hex_concat_def)
      show "\<forall>x\<in>set (hex_list_comma bs1 @ [0x5c]). not_eol x"
        using hex_list_comma_not_eol [of bs1] by (simp add: not_eol_def)
      show "bs \<noteq> [] \<longrightarrow> hex_list_comma bs1 @ [0x5c] \<noteq> [] \<and> isxdigitW (hd (hex_list_comma bs1 @ [0x5c]))"
        using hex_list_comma_head [OF ne] by blast
      show "(hex_list_comma bs1 @ [0x5c] = hex_list bs
            \<and> 0x20 # 0x20 # export_binary_loop bs2 2 @ 0x0d # 0x0a # R = R)
        \<or> (\<exists>bs1' bs2'. bs = bs1' @ bs2' \<and> bs2' \<noteq> [] \<and> length bs2' < length bs
              \<and> hex_list_comma bs1 @ [0x5c] = hex_list_comma bs1' @ [0x5c]
              \<and> 0x20 # 0x20 # export_binary_loop bs2 2 @ 0x0d # 0x0a # R
                  = 0x20 # 0x20 # export_binary_loop bs2' 2 @ 0x0d # 0x0a # R)"
        using x(1,2,3) by blast
    qed
  qed
qed


lemma hex_multiline_skip:
  fixes os :: "('r, 'h) winapi"
  assumes "state p = HEX_MULTILINE" "ctx p reg h" "rdr p (0x0a # R)"
  shows "\<exists>p'. parser_main_loop os p (Some q) = parser_main_loop os p' (Some [])
            \<and> state p' = HEX_MULTILINE \<and> ctx p' reg h \<and> data p' = data p
            \<and> data_type p' = data_type p \<and> value_name p' = value_name p \<and> rdr p' R"
proof -
  have u: "is_unicode p" using assms(2) by (simp add: ctx_def)
  obtain p1 sz nx fr where g: "get_lineW p = (Some [], p1)" "rdr p1 R"
     "p1 = p\<lparr>sizeW := sz, nextW := nx, file_rest := fr\<rparr>"
    using get_lineW_lf [OF assms(3)] by blast
  have "parser_funcs (state p) os p q = Inr (p1, Some [])"
    using u g(1) by (simp add: assms(1) hex_multiline_state_def get_line_def)
  then have "parser_main_loop os p (Some q) = parser_main_loop os p1 (Some [])"
    by (rule parser_main_loop_Some)
  moreover have "state p1 = HEX_MULTILINE \<and> ctx p1 reg h \<and> data p1 = data p
      \<and> data_type p1 = data_type p \<and> value_name p1 = value_name p"
    using assms(1,2) by (simp add: g(3) ctx_def)
  ultimately show ?thesis using g(2) by blast
qed

lemma hex_multiline_line:
  fixes os :: "('r, 'h) winapi"
  assumes "state p = HEX_MULTILINE" "ctx p reg h" "rdr p (0x20 # 0x20 # l @ 0x0d # 0x0a # R)"
    and "\<forall>c\<in>set l. not_eol c" "l \<noteq> []" "isxdigitW (hd l)"
  shows "\<exists>p'. parser_main_loop os p (Some q) = parser_main_loop os p' (Some l)
            \<and> state p' = HEX_DATA \<and> ctx p' reg h \<and> data p' = data p
            \<and> data_type p' = data_type p \<and> value_name p' = value_name p
            \<and> (rdr p' R \<or> rdr p' (0x0a # R))"
proof -
  have u: "is_unicode p" using assms(2) by (simp add: ctx_def)
  define l0 where "l0 = 0x20 # 0x20 # l"
  have r: "rdr p (l0 @ 0x0d # 0x0a # R)" using assms(3) by (simp add: l0_def)
  have e: "\<forall>c\<in>set l0. not_eol c" using assms(4) by (simp add: not_eol_def l0_def)
  obtain p1 sz nx fr where g: "get_lineW p = (Some l0, p1)" "rdr p1 R \<or> rdr p1 (0x0a # R)"
     "p1 = p\<lparr>sizeW := sz, nextW := nx, file_rest := fr\<rparr>"
    using get_lineW_crlf [OF r e] by blast
  have nb: "\<not> blank (hd l)" "hd l \<noteq> 0x3b"
    using assms(6) by (auto simp: isxdigitW_def blank_def)
  then have d: "dropWhile blank l0 = l"
    using assms(5) by (cases l) (simp_all add: blank_def l0_def)
  have "parser_funcs (state p) os p q = Inr (set_state p1 HEX_DATA, Some l)"
    using u g(1) assms(5,6) nb by (simp add: assms(1) hex_multiline_state_def get_line_def d Let_def)
  then have "parser_main_loop os p (Some q) = parser_main_loop os (set_state p1 HEX_DATA) (Some l)"
    by (rule parser_main_loop_Some)
  moreover have "state (set_state p1 HEX_DATA) = HEX_DATA \<and> ctx (set_state p1 HEX_DATA) reg h
      \<and> data (set_state p1 HEX_DATA) = data p \<and> data_type (set_state p1 HEX_DATA) = data_type p
      \<and> value_name (set_state p1 HEX_DATA) = value_name p"
    using assms(2) by (simp add: g(3) ctx_def set_state_def)
  moreover have "rdr (set_state p1 HEX_DATA) X = rdr p1 X" for X
    by (rule rdr_eq) (simp_all add: set_state_def)
  ultimately show ?thesis using g(2) by (intro exI [of _ "set_state p1 HEX_DATA"]) simp
qed

lemma hex_multiline_read:
  fixes os :: "('r, 'h) winapi"
  assumes "state p = HEX_MULTILINE" "ctx p reg h"
    and "rdr p (0x20 # 0x20 # l @ 0x0d # 0x0a # R) \<or> rdr p (0x0a # 0x20 # 0x20 # l @ 0x0d # 0x0a # R)"
    and "\<forall>c\<in>set l. not_eol c" "l \<noteq> []" "isxdigitW (hd l)"
  shows "\<exists>p'. parser_main_loop os p (Some q) = parser_main_loop os p' (Some l)
            \<and> state p' = HEX_DATA \<and> ctx p' reg h \<and> data p' = data p
            \<and> data_type p' = data_type p \<and> value_name p' = value_name p
            \<and> (rdr p' R \<or> rdr p' (0x0a # R))"
  using assms(3)
proof
  assume "rdr p (0x20 # 0x20 # l @ 0x0d # 0x0a # R)"
  then show ?thesis by (rule hex_multiline_line [OF assms(1,2) _ assms(4,5,6)])
next
  assume "rdr p (0x0a # 0x20 # 0x20 # l @ 0x0d # 0x0a # R)"
  then obtain p1 where 1: "parser_main_loop os p (Some q) = parser_main_loop os p1 (Some [])"
      "state p1 = HEX_MULTILINE" "ctx p1 reg h" "data p1 = data p"
      "data_type p1 = data_type p" "value_name p1 = value_name p"
      "rdr p1 (0x20 # 0x20 # l @ 0x0d # 0x0a # R)"
    using hex_multiline_skip [OF assms(1,2), of "0x20 # 0x20 # l @ 0x0d # 0x0a # R" os q] by blast
  obtain p' where "parser_main_loop os p1 (Some []) = parser_main_loop os p' (Some l)"
      "state p' = HEX_DATA" "ctx p' reg h" "data p' = data p1"
      "data_type p' = data_type p1" "value_name p' = value_name p1"
      "rdr p' R \<or> rdr p' (0x0a # R)"
    using hex_multiline_line [OF 1(2,3,7) assms(4,5,6), of os "[]"] by blast
  then show ?thesis using 1 by (intro exI [of _ p']) simp
qed


lemma hex_value_last_line:
  fixes os :: "('r, 'h) winapi"
  assumes ok: "(ty = REG_EXPAND_SZ \<or> ty = REG_MULTI_SZ) \<longrightarrow> d @ bs \<noteq> [] \<and> last (d @ bs) = 0"
    and p: "state p = HEX_DATA" "ctx p reg h" "data p = d" "data_type p = ty"
    and r: "rdr p R \<or> rdr p (0x0a # R)"
  shows "\<exists>p'. parser_main_loop os p (Some (hex_list bs)) = parser_main_loop os p' (Some [])
            \<and> at_line_start p' (RegSetValueExW os reg h (value_name p) ty (d @ bs)) h R"
proof -
  define p1 where "p1 = p\<lparr>backslash := False, data := d @ bs, errno_range := errno_range p \<or> False\<rparr>"
  have c: "convert_hex_csv_to_hex p (hex_list bs) = (True, p1, hex_list bs)"
    by (simp add: convert_hex_csv_to_hex_def hex_csv_loop_hex_list p(3) p1_def)
  have u: "is_unicode p1" "data_type p1 = ty" "data p1 = d @ bs" "\<not> backslash p1"
    using p(2,4) by (simp_all add: p1_def ctx_def)
  have pr: "prepare_hex_string_data os room p1 = Inr p1" for room
    using ok u by (auto simp: prepare_hex_string_data_def Let_def)
  have "parser_funcs (state p) os p (hex_list bs) = Inr (set_state p1 SET_VALUE, Some (hex_list bs))"
    using u(4) by (simp add: p(1) hex_data_state_def c pr)
  then have 1: "parser_main_loop os p (Some (hex_list bs))
      = parser_main_loop os (set_state p1 SET_VALUE) (Some (hex_list bs))"
    by (rule parser_main_loop_Some)
  have s: "state (set_state p1 SET_VALUE) = SET_VALUE" "ctx (set_state p1 SET_VALUE) reg h"
      "value_name (set_state p1 SET_VALUE) = value_name p" "data_type (set_state p1 SET_VALUE) = ty"
      "data (set_state p1 SET_VALUE) = d @ bs"
    using p(2,4) by (simp_all add: p1_def set_state_def ctx_def)
  have "rdr (set_state p1 SET_VALUE) X = rdr p X" for X
    by (rule rdr_eq) (simp_all add: p1_def set_state_def)
  then have r': "rdr (set_state p1 SET_VALUE) R \<or> rdr (set_state p1 SET_VALUE) (0x0a # R)"
    using r by simp
  show ?thesis using set_value_finish [OF s(1,2) r', of os "hex_list bs"] 1 s(3,4,5) by auto
qed

lemma hex_value_wrapped_line:
  fixes os :: "('r, 'h) winapi"
  assumes p: "state p = HEX_DATA" "ctx p reg h" "data p = d"
    and r: "rdr p (0x20 # 0x20 # l @ 0x0d # 0x0a # R) \<or> rdr p (0x0a # 0x20 # 0x20 # l @ 0x0d # 0x0a # R)"
    and l: "\<forall>c\<in>set l. not_eol c" "l \<noteq> []" "isxdigitW (hd l)"
  shows "\<exists>p'. parser_main_loop os p (Some (hex_list_comma bs1 @ [0x5c])) = parser_main_loop os p' (Some l)
            \<and> state p' = HEX_DATA \<and> ctx p' reg h \<and> data p' = d @ bs1
            \<and> data_type p' = data_type p \<and> value_name p' = value_name p
            \<and> (rdr p' R \<or> rdr p' (0x0a # R))"
proof -
  let ?line = "hex_list_comma bs1 @ [0x5c]"
  define p1 where "p1 = p\<lparr>backslash := True, data := d @ bs1, errno_range := errno_range p \<or> False\<rparr>"
  have c: "convert_hex_csv_to_hex p ?line = (True, p1, [])"
    by (simp add: convert_hex_csv_to_hex_def hex_csv_loop_hex_list_comma p(3) p1_def)
  have "parser_funcs (state p) os p ?line = Inr (set_state p1 EOL_BACKSLASH, Some [])"
    by (simp add: p(1) hex_data_state_def c p1_def)
  then have 1: "parser_main_loop os p (Some ?line)
      = parser_main_loop os (set_state p1 EOL_BACKSLASH) (Some [])"
    by (rule parser_main_loop_Some)
  define p2 where "p2 = set_state (set_state p1 EOL_BACKSLASH) HEX_MULTILINE"
  have "parser_funcs (state (set_state p1 EOL_BACKSLASH)) os (set_state p1 EOL_BACKSLASH) []
      = Inr (p2, Some [])"
    by (simp add: eol_backslash_state_def p2_def)
  then have 2: "parser_main_loop os (set_state p1 EOL_BACKSLASH) (Some []) = parser_main_loop os p2 (Some [])"
    by (rule parser_main_loop_Some)
  have s: "state p2 = HEX_MULTILINE" "ctx p2 reg h" "data p2 = d @ bs1" "data_type p2 = data_type p"
      "value_name p2 = value_name p"
    using p(2) by (simp_all add: p2_def p1_def set_state_def ctx_def)
  have "rdr p2 X = rdr p X" for X
    by (rule rdr_eq) (simp_all add: p2_def p1_def set_state_def)
  then have r': "rdr p2 (0x20 # 0x20 # l @ 0x0d # 0x0a # R) \<or> rdr p2 (0x0a # 0x20 # 0x20 # l @ 0x0d # 0x0a # R)"
    using r by simp
  obtain p' where "parser_main_loop os p2 (Some []) = parser_main_loop os p' (Some l)"
      "state p' = HEX_DATA" "ctx p' reg h" "data p' = data p2"
      "data_type p' = data_type p2" "value_name p' = value_name p2"
      "rdr p' R \<or> rdr p' (0x0a # R)"
    using hex_multiline_read [OF s(1,2) r' l, of os "[]"] by blast
  then show ?thesis using 1 2 s by (intro exI [of _ p']) simp
qed

lemma hex_value_lines:
  fixes os :: "('r, 'h) winapi"
  assumes "(ty = REG_EXPAND_SZ \<or> ty = REG_MULTI_SZ) \<longrightarrow> d @ bs \<noteq> [] \<and> last (d @ bs) = 0"
    and "state p = HEX_DATA" "ctx p reg h" "data p = d" "data_type p = ty"
    and "export_binary_loop bs c @ 0x0d # 0x0a # R = line1 @ 0x0d # 0x0a # R1"
    and "\<forall>x\<in>set line1. not_eol x"
    and "rdr p R1 \<or> rdr p (0x0a # R1)"
  shows "\<exists>p'. parser_main_loop os p (Some line1) = parser_main_loop os p' (Some [])
            \<and> at_line_start p' (RegSetValueExW os reg h (value_name p) ty (d @ bs)) h R"
  using assms
proof (induction "length bs" arbitrary: bs p d c line1 R1 rule: less_induct)
  case less
  obtain l R' where f: "export_binary_loop bs c @ 0x0d # 0x0a # R = l @ 0x0d # 0x0a # R'"
      "\<forall>x\<in>set l. not_eol x"
      "(l = hex_list bs \<and> R' = R)
        \<or> (\<exists>bs1 bs2. bs = bs1 @ bs2 \<and> bs2 \<noteq> [] \<and> length bs2 < length bs
              \<and> l = hex_list_comma bs1 @ [0x5c]
              \<and> R' = 0x20 # 0x20 # export_binary_loop bs2 2 @ 0x0d # 0x0a # R)"
    using hex_first_line [of bs c R] by blast
  have eq: "line1 = l" "R1 = R'"
    using split_crlf_unique [of line1 R1 l R'] less.prems(6,7) f(1,2) by simp_all
  from f(3) show ?case
  proof
    assume a: "l = hex_list bs \<and> R' = R"
    then have "rdr p R \<or> rdr p (0x0a # R)" using less.prems(8) eq by simp
    then show ?thesis
      using hex_value_last_line [OF less.prems(1,2,3,4,5), of R os] a eq by simp
  next
    assume "\<exists>bs1 bs2. bs = bs1 @ bs2 \<and> bs2 \<noteq> [] \<and> length bs2 < length bs
              \<and> l = hex_list_comma bs1 @ [0x5c]
              \<and> R' = 0x20 # 0x20 # export_binary_loop bs2 2 @ 0x0d # 0x0a # R"
    then obtain bs1 bs2 where b: "bs = bs1 @ bs2" "bs2 \<noteq> []" "length bs2 < length bs"
        "l = hex_list_comma bs1 @ [0x5c]"
        "R' = 0x20 # 0x20 # export_binary_loop bs2 2 @ 0x0d # 0x0a # R"
      by blast
    obtain l2 R2 where g: "export_binary_loop bs2 2 @ 0x0d # 0x0a # R = l2 @ 0x0d # 0x0a # R2"
        "\<forall>x\<in>set l2. not_eol x" "l2 \<noteq> []" "isxdigitW (hd l2)"
      using hex_first_line [of bs2 2 R] b(2) by blast
    have r: "rdr p (0x20 # 0x20 # l2 @ 0x0d # 0x0a # R2) \<or> rdr p (0x0a # 0x20 # 0x20 # l2 @ 0x0d # 0x0a # R2)"
      using less.prems(8) eq(2) b(5) g(1) by simp
    obtain p' where 1: "parser_main_loop os p (Some (hex_list_comma bs1 @ [0x5c]))
          = parser_main_loop os p' (Some l2)"
        "state p' = HEX_DATA" "ctx p' reg h" "data p' = d @ bs1"
        "data_type p' = data_type p" "value_name p' = value_name p"
        "rdr p' R2 \<or> rdr p' (0x0a # R2)"
      using hex_value_wrapped_line [OF less.prems(2,3,4) r g(2,3,4), of os bs1] by blast
    have ok: "(ty = REG_EXPAND_SZ \<or> ty = REG_MULTI_SZ) \<longrightarrow> (d @ bs1) @ bs2 \<noteq> [] \<and> last ((d @ bs1) @ bs2) = 0"
      using less.prems(1) b(1) by simp
    have dt: "data_type p' = ty" using 1(5) less.prems(5) by simp
    obtain p'' where 2: "parser_main_loop os p' (Some l2) = parser_main_loop os p'' (Some [])"
        "at_line_start p'' (RegSetValueExW os reg h (value_name p') ty ((d @ bs1) @ bs2)) h R"
      using less.hyps [OF b(3) ok 1(2,3,4) dt g(1,2) 1(7)] by blast
    show ?thesis using 1(1,6) 2 eq(1) b(1,4) by (intro exI [of _ p'']) simp
  qed
qed


lemma hex_list_last: "bs \<noteq> [] \<Longrightarrow> \<not> blank (last (hex_list bs))"
proof (induction bs rule: hex_list.induct)
  case (2 b)
  have "0 \<le> uint b mod 16" "uint b mod 16 < 16" by simp_all
  then show ?case using hexdig_facts(8) [of "uint b mod 16"] by (simp add: fmt_02x_def)
next
  case (3 b b' bs)
  have "hex_list (b' # bs) \<noteq> []" using hex_list_head [of "b' # bs"] by simp
  then show ?case using 3 by simp
qed simp

lemma hex_prefix_chars:
  "hex_prefix ty \<noteq> []" "hd (hex_prefix ty) = 0x68" "last (hex_prefix ty) = 0x3a"
  "\<forall>c\<in>set (hex_prefix ty). not_eol c" "0 \<notin> set (hex_prefix ty)"
  using fmt_x_head(4,5,6) [of ty]
  by (auto simp: hex_prefix_def W_def not_eol_def)

lemma hex_form_value:
  fixes os :: "('r, 'h) winapi"
  assumes a: "at_line_start p reg h
       (concat (fst (export_value_name name)) @ hex_prefix ty @ export_binary_loop bs c @ 0x0d # 0x0a # R)"
    and nm: "0 \<notin> set name"
    and ok: "(ty = REG_EXPAND_SZ \<or> ty = REG_MULTI_SZ) \<longrightarrow> bs \<noteq> [] \<and> last bs = 0"
  shows "\<exists>p'. parser_main_loop os p (Some q) = parser_main_loop os p' (Some [])
            \<and> at_line_start p' (RegSetValueExW os reg h (value_name_of name) ty bs) h R"
proof -
  obtain l R1 where f: "export_binary_loop bs c @ 0x0d # 0x0a # R = l @ 0x0d # 0x0a # R1"
      "\<forall>x\<in>set l. not_eol x"
      "(l = hex_list bs \<and> R1 = R)
        \<or> (\<exists>bs1 bs2. bs = bs1 @ bs2 \<and> bs2 \<noteq> [] \<and> length bs2 < length bs
              \<and> l = hex_list_comma bs1 @ [0x5c]
              \<and> R1 = 0x20 # 0x20 # export_binary_loop bs2 2 @ 0x0d # 0x0a # R)"
    using hex_first_line [of bs c R] by blast
  define D where "D = hex_prefix ty @ l"
  have last_l: "\<not> blank (last l)" if "l \<noteq> []"
    using f(3)
  proof
    assume x: "l = hex_list bs \<and> R1 = R"
    then have "bs \<noteq> []" using that by auto
    then show ?thesis using hex_list_last [of bs] x by simp
  next
    assume "\<exists>bs1 bs2. bs = bs1 @ bs2 \<and> bs2 \<noteq> [] \<and> length bs2 < length bs
              \<and> l = hex_list_comma bs1 @ [0x5c]
              \<and> R1 = 0x20 # 0x20 # export_binary_loop bs2 2 @ 0x0d # 0x0a # R"
    then show ?thesis by (auto simp: blank_def)
  qed
  have D: "D \<noteq> []" "\<not> blank (hd D)" "hd D \<noteq> 0x2d" "\<not> blank (last D)" "\<forall>c\<in>set D. not_eol c"
    using hex_prefix_chars [of ty] f(2) last_l by (auto simp: D_def blank_def last_append)
  have a': "at_line_start p reg h (concat (fst (export_value_name name)) @ D @ 0x0d # 0x0a # R1)"
    using a f(1) by (simp add: D_def)
  obtain p1 where 1: "parser_main_loop os p (Some q) = parser_main_loop os p1 (Some D)"
      "state p1 = DATA_TYPE" "ctx p1 reg h" "data p1 = []"
      "value_name p1 = value_name_of name" "rdr p1 R1 \<or> rdr p1 (0x0a # R1)"
    using value_head [OF a' nm D] by blast
  define p2 where "p2 = set_state (p1\<lparr>parse_type := REG_BINARY, data_type := ty\<rparr>) HEX_DATA"
  have ne: "\<not> errno_range p1" using 1(3) by (simp add: ctx_def)
  have "parser_funcs (state p1) os p1 D = Inr (p2, Some l)"
    by (simp add: 1(2) data_type_state_def D_def parse_data_type_hex_prefix [OF ne] p2_def)
  then have 2: "parser_main_loop os p1 (Some D) = parser_main_loop os p2 (Some l)"
    by (rule parser_main_loop_Some)
  have s: "state p2 = HEX_DATA" "ctx p2 reg h" "data p2 = []" "data_type p2 = ty"
      "value_name p2 = value_name_of name"
    using 1(3,4,5) by (simp_all add: p2_def set_state_def ctx_def)
  have "rdr p2 X = rdr p1 X" for X
    by (rule rdr_eq) (simp_all add: p2_def set_state_def)
  then have r: "rdr p2 R1 \<or> rdr p2 (0x0a # R1)" using 1(6) by simp
  have ok': "(ty = REG_EXPAND_SZ \<or> ty = REG_MULTI_SZ) \<longrightarrow> [] @ bs \<noteq> [] \<and> last ([] @ bs) = 0"
    using ok by simp
  obtain p' where "parser_main_loop os p2 (Some l) = parser_main_loop os p' (Some [])"
      "at_line_start p' (RegSetValueExW os reg h (value_name p2) ty ([] @ bs)) h R"
    using hex_value_lines [OF ok' s(1,2,3,4) f(1,2) r] by blast
  then show ?thesis using 1(1) 2 s(5) by (intro exI [of _ p']) simp
qed

lemma cstr_no_NUL: "0 \<notin> set (cstr s)"
  by (induction s) (auto simp: cstr_def)

lemma string_data_bytes:
  assumes "string_data d" "0 \<notin> set (butlast (bytes_wstr d))"
  shows "wstr_bytes (cstr (bytes_wstr d) @ [0]) = d"
proof -
  have e: "even (length d)" using assms(1) by (simp add: string_data_def dvd_eq_mod_eq_0)
  have "2 \<le> length d" using assms(1) by (simp add: string_data_def)
  then have "bytes_wstr d \<noteq> []" by (cases d; cases "tl d") auto
  then have b: "bytes_wstr d = butlast (bytes_wstr d) @ [0]"
    using assms(1) by (metis append_butlast_last_id string_data_def)
  have "cstr (bytes_wstr d) = butlast (bytes_wstr d)"
    using cstr_append_0 [OF assms(2), of "[]"] b by simp
  then have "cstr (bytes_wstr d) @ [0] = bytes_wstr d" using b by simp
  then show ?thesis using wstr_bytes_bytes_wstr [OF e] by simp
qed

definition value_ok :: "wstr \<times> dword \<times> byte list \<Rightarrow> bool" where
  \<comment> \<open>the values that an export in the Unicode format hands on unchanged: a name
      without NUL; string data without NUL in front of its terminator; four bytes for a
      \<^verbatim>\<open>REG_DWORD\<close>; one byte or more for every other type, the last one zero for
      \<^verbatim>\<open>REG_EXPAND_SZ\<close> and \<^verbatim>\<open>REG_MULTI_SZ\<close>\<close>
  "value_ok v =
     (case v of (name, ty, d) \<Rightarrow>
        0 \<notin> set name
        \<and> (if ty = REG_SZ then (if string_data d then 0 \<notin> set (butlast (bytes_wstr d)) else True)
           else if ty = REG_DWORD then length d = 4
           else d \<noteq> [] \<and> (if ty = REG_EXPAND_SZ \<or> ty = REG_MULTI_SZ then last d = 0 else True)))"

lemma value_line:
  fixes os :: "('r, 'h) winapi"
  assumes a: "at_line_start p reg h (concat (export_value os True stale (name, ty, d)) @ R)"
    and ok: "value_ok (name, ty, d)"
  shows "\<exists>p'. parser_main_loop os p (Some q) = parser_main_loop os p' (Some [])
            \<and> at_line_start p' (RegSetValueExW os reg h (value_name_of name) ty d) h R"
proof -
  let ?N = "concat (fst (export_value_name name))"
  have nm: "0 \<notin> set name" using ok by (simp add: value_ok_def)
  consider (str) "ty = REG_SZ" "string_data d" | (bin) "ty = REG_SZ" "\<not> string_data d"
    | (dw) "ty = REG_DWORD" | (hex) "ty \<noteq> REG_SZ" "ty \<noteq> REG_DWORD" by blast
  then show ?thesis
  proof cases
    case str
    define s where "s = cstr (bytes_wstr d)"
    define D where "D = 0x22 # REGPROC_export_string s @ [0x22]"
    have t: "concat (export_value os True stale (name, ty, d)) = ?N @ D @ [0x0d, 0x0a]"
      using str by (simp add: export_value_sz export_hkey_def string_data_def s_def D_def)
    have D: "D \<noteq> []" "\<not> blank (hd D)" "hd D \<noteq> 0x2d" "\<not> blank (last D)" "\<forall>c\<in>set D. not_eol c"
      using export_string_not_eol [of s] by (simp_all add: D_def blank_def not_eol_def)
    have a': "at_line_start p reg h (?N @ D @ 0x0d # 0x0a # R)" using a t by simp
    obtain p1 where 1: "parser_main_loop os p (Some q) = parser_main_loop os p1 (Some D)"
        "state p1 = DATA_TYPE" "ctx p1 reg h" "data p1 = []"
        "value_name p1 = value_name_of name" "rdr p1 R \<or> rdr p1 (0x0a # R)"
      using value_head [OF a' nm D] by blast
    have z: "0 \<notin> set s" by (simp add: s_def cstr_no_NUL)
    obtain p' where 2: "parser_main_loop os p1 (Some D) = parser_main_loop os p' (Some [])"
        "at_line_start p' (RegSetValueExW os reg h (value_name p1) REG_SZ (wstr_bytes (s @ [0]))) h R"
      using string_value [OF 1(2,3,6) z] unfolding D_def by blast
    have "wstr_bytes (s @ [0]) = d"
      unfolding s_def using string_data_bytes [of d] ok str by (simp add: value_ok_def)
    then show ?thesis using 1(1,5) 2 str(1) by (intro exI [of _ p']) simp
  next
    case bin
    have "export_value os True stale (name, ty, d)
        = fst (export_value_name name) @ [REGPROC_export_binary os 0 REG_SZ d True]"
      using bin by (auto simp: export_value_sz export_hkey_def string_data_def)
    moreover have "REGPROC_export_binary os 0 REG_SZ d True
        = hex_prefix REG_SZ @ export_binary_loop d (0 + length (hex_prefix REG_SZ)) @ newline"
      by (simp add: REGPROC_export_binary_def hex_prefix_def Let_def)
    ultimately have "concat (export_value os True stale (name, ty, d)) @ R
        = ?N @ hex_prefix ty @ export_binary_loop d (0 + length (hex_prefix REG_SZ)) @ 0x0d # 0x0a # R"
      using bin(1) by (simp add: newline_def)
    then show ?thesis using hex_form_value [OF _ nm, of p reg h ty d _ R os q] a bin(1) by simp
  next
    case dw
    have l: "length d = 4" using ok dw by (simp add: value_ok_def)
    then have "map (data_buffer d stale) [0, 1, 2, 3] = [d ! 0, d ! 1, d ! 2, d ! 3]"
      by (auto simp: data_buffer_def)
    then have v: "dword_of_bytes (map (data_buffer d stale) [0, 1, 2, 3]) = dword_of_bytes d"
      by (simp add: dword_of_bytes_def)
    define D where "D = W ''dword:'' @ fmt_08x (dword_of_bytes d)"
    have t: "concat (export_value os True stale (name, ty, d)) = ?N @ D @ [0x0d, 0x0a]"
      using dw v by (simp add: export_value_other export_data_def export_dword_data_def newline_def D_def)
    have x: "\<forall>c\<in>set (fmt_08x (dword_of_bytes d)). isxdigitW c \<and> \<not> blank c \<and> not_eol c"
      using fmt_08x_digits(2) [of "dword_of_bytes d"] hexdig_facts(1,8) hexdig_not_special(1,2)
      by (simp only: fmt_08x_digits(1) hexdigits_def not_eol_def) auto
    have l8: "length (fmt_08x (dword_of_bytes d)) = 8" by (simp add: fmt_08x_def)
    then have ne: "fmt_08x (dword_of_bytes d) \<noteq> []" by auto
    have D: "D \<noteq> []" "\<not> blank (hd D)" "hd D \<noteq> 0x2d" "\<not> blank (last D)" "\<forall>c\<in>set D. not_eol c"
      using x ne by (auto simp: D_def W_def blank_def not_eol_def)
    have a': "at_line_start p reg h (?N @ D @ 0x0d # 0x0a # R)" using a t by simp
    obtain p1 where 1: "parser_main_loop os p (Some q) = parser_main_loop os p1 (Some D)"
        "state p1 = DATA_TYPE" "ctx p1 reg h" "data p1 = []"
        "value_name p1 = value_name_of name" "rdr p1 R \<or> rdr p1 (0x0a # R)"
      using value_head [OF a' nm D] by blast
    obtain p' where 2: "parser_main_loop os p1 (Some D) = parser_main_loop os p' (Some [])"
        "at_line_start p' (RegSetValueExW os reg h (value_name p1) REG_DWORD
           (dword_bytes (dword_of_bytes d))) h R"
      using dword_value [OF 1(2,3,6)] unfolding D_def by blast
    show ?thesis using 1(1,5) 2 dw dword_bytes_of_bytes [OF l] by (intro exI [of _ p']) simp
  next
    case hex
    define n where "n = snd (export_value_name name)"
    have ne: "d \<noteq> []" using ok hex by (simp add: value_ok_def)
    obtain w r where e: "export_hex_data os ty n d True = (w, r)"
      by (cases "export_hex_data os ty n d True")
    have "concat w @ r = hex_prefix ty @ export_binary_loop d (n + length (hex_prefix ty))"
      using export_hex_data_text [of d True ty os d n] e ne by simp
    then have "concat (export_value os True stale (name, ty, d)) @ R
        = ?N @ hex_prefix ty @ export_binary_loop d (n + length (hex_prefix ty)) @ 0x0d # 0x0a # R"
      using hex e by (simp add: export_value_other export_data_def n_def newline_def)
    moreover have "(ty = REG_EXPAND_SZ \<or> ty = REG_MULTI_SZ) \<longrightarrow> d \<noteq> [] \<and> last d = 0"
      using ok hex by (auto simp: value_ok_def)
    ultimately show ?thesis using hex_form_value [OF _ nm, of p reg h ty d _ R os q] a by simp
  qed
qed


fun values_text :: "('r, 'h) winapi \<Rightarrow> bool \<Rightarrow> (nat \<Rightarrow> byte) \<Rightarrow> (wstr \<times> dword \<times> byte list) list \<Rightarrow> written" where
  \<comment> \<open>what the export writes for a list of values, from the data buffer as it is\<close>
  "values_text os u buf [] = []"
| "values_text os u buf (v # vs) =
     export_value os u buf v @ values_text os u (data_buffer (snd (snd v)) buf) vs"

lemma export_values_loop_value:
  fixes os :: "('r, 'h) winapi"
  assumes "i < length (key_values k)" "key_values k ! i = (name, ty, d)" "0 < mvl" "0 < mdb"
  shows "\<exists>mvl' mdb'. 0 < mvl' \<and> 0 < mdb'
     \<and> export_values_loop os u k i mvl mdb buf fp
       = export_values_loop os u k (i + 1) mvl' mdb' (data_buffer d buf)
           (fp @ export_value os u buf (name, ty, d))"
  using assms(3,4)
proof (induction "(length d - mdb) + (Suc (length name) - mvl)" arbitrary: mvl mdb rule: less_induct)
  case less
  show ?case
  proof (cases "length d > mdb")
    case True
    have e: "RegEnumValueW k i mvl mdb = Value_more_data (length d)"
      using assms(1,2) True by (simp add: RegEnumValueW_def)
    have s: "export_values_loop os u k i mvl mdb buf fp = export_values_loop os u k i mvl (mdb * 2) buf fp"
      using True by (subst export_values_loop.simps) (simp add: e)
    have "(length d - mdb * 2) + (Suc (length name) - mvl) < (length d - mdb) + (Suc (length name) - mvl)"
      using True less.prems by simp
    moreover have "0 < mdb * 2" using less.prems by simp
    ultimately show ?thesis using less.hyps [of "mdb * 2" mvl] less.prems s by simp
  next
    case False
    show ?thesis
    proof (cases "length name \<ge> mvl")
      case True
      have e: "RegEnumValueW k i mvl mdb = Value_more_data mdb"
        using assms(1,2) True False by (simp add: RegEnumValueW_def)
      have s: "export_values_loop os u k i mvl mdb buf fp = export_values_loop os u k i (mvl * 2) mdb buf fp"
        by (subst export_values_loop.simps) (simp add: e)
      have "(length d - mdb) + (Suc (length name) - mvl * 2) < (length d - mdb) + (Suc (length name) - mvl)"
        using True less.prems by simp
      moreover have "0 < mvl * 2" using less.prems by simp
      ultimately show ?thesis using less.hyps [of mdb "mvl * 2"] less.prems s by simp
    next
      case n: False
      have e: "RegEnumValueW k i mvl mdb = Value_success name ty d"
        using assms(1,2) False n by (simp add: RegEnumValueW_def)
      have "export_values_loop os u k i mvl mdb buf fp
          = export_values_loop os u k (i + 1) mvl mdb (data_buffer d buf)
              (fp @ export_value os u buf (name, ty, d))"
        by (subst export_values_loop.simps) (simp add: e)
      then show ?thesis using less.prems by blast
    qed
  qed
qed

lemma export_values_loop_text:
  fixes os :: "('r, 'h) winapi"
  assumes "0 < mvl" "0 < mdb"
  shows "export_values_loop os u k i mvl mdb buf fp
     = Some (fp @ values_text os u buf (drop i (key_values k)))"
  using assms
proof (induction "length (key_values k) - i" arbitrary: i mvl mdb buf fp)
  case 0
  then have "RegEnumValueW k i mvl mdb = Value_no_more" by (simp add: RegEnumValueW_def)
  then have "export_values_loop os u k i mvl mdb buf fp = Some fp"
    by (subst export_values_loop.simps) simp
  then show ?case using 0 by simp
next
  case (Suc n)
  then have i: "i < length (key_values k)" by simp
  obtain name ty d where v: "key_values k ! i = (name, ty, d)" by (cases "key_values k ! i")
  obtain mvl' mdb' where r: "0 < mvl'" "0 < mdb'"
      "export_values_loop os u k i mvl mdb buf fp
       = export_values_loop os u k (i + 1) mvl' mdb' (data_buffer d buf)
           (fp @ export_value os u buf (name, ty, d))"
    using export_values_loop_value [OF i v Suc.prems] by blast
  have "n = length (key_values k) - (i + 1)" using Suc(2) by simp
  then have "export_values_loop os u k (i + 1) mvl' mdb' (data_buffer d buf)
           (fp @ export_value os u buf (name, ty, d))
      = Some ((fp @ export_value os u buf (name, ty, d))
              @ values_text os u (data_buffer d buf) (drop (i + 1) (key_values k)))"
    using Suc(1) [of "i + 1" mvl' mdb'] r(1,2) by simp
  moreover have "drop i (key_values k) = (name, ty, d) # drop (i + 1) (key_values k)"
    using i v by (simp add: Cons_nth_drop_Suc [symmetric])
  ultimately show ?case using r(3) by simp
qed

lemma values_lines:
  fixes os :: "('r, 'h) winapi"
  assumes "at_line_start p reg h (concat (values_text os True buf vs) @ R)" "list_all value_ok vs"
  shows "\<exists>p'. parser_main_loop os p (Some q) = parser_main_loop os p' (Some [])
            \<and> at_line_start p'
                (fold (\<lambda>v r. RegSetValueExW os r h (value_name_of (fst v)) (fst (snd v)) (snd (snd v))) vs reg)
                h R"
  using assms
proof (induction vs arbitrary: p reg buf q)
  case Nil
  then show ?case using line_start_pos [of p os q] by (auto simp: at_line_start_def)
next
  case (Cons v vs)
  obtain name ty d where v: "v = (name, ty, d)" by (cases v)
  have a: "at_line_start p reg h (concat (export_value os True buf (name, ty, d))
      @ concat (values_text os True (data_buffer d buf) vs) @ R)"
    using Cons.prems(1) by (simp add: v)
  have ok: "value_ok (name, ty, d)" "list_all value_ok vs" using Cons.prems(2) by (simp_all add: v)
  obtain p1 where 1: "parser_main_loop os p (Some q) = parser_main_loop os p1 (Some [])"
      "at_line_start p1 (RegSetValueExW os reg h (value_name_of name) ty d) h
         (concat (values_text os True (data_buffer d buf) vs) @ R)"
    using value_line [OF a ok(1)] by blast
  obtain p' where "parser_main_loop os p1 (Some []) = parser_main_loop os p' (Some [])"
      "at_line_start p'
         (fold (\<lambda>v r. RegSetValueExW os r h (value_name_of (fst v)) (fst (snd v)) (snd (snd v))) vs
            (RegSetValueExW os reg h (value_name_of name) ty d)) h R"
    using Cons.IH [OF 1(2) ok(2)] by blast
  then show ?case using 1(1) by (intro exI [of _ p']) (simp add: v)
qed


definition sub_path :: "wstr option \<Rightarrow> wstr \<Rightarrow> wstr" where
  \<comment> \<open>the path of a subkey below its root class\<close>
  "sub_path sp name = (case sp of None \<Rightarrow> name | Some s \<Rightarrow> s @ 0x5c # name)"

fun rebuild ::
  "('r, 'h) winapi \<Rightarrow> hkey_class \<Rightarrow> wstr option \<Rightarrow> reg_key \<Rightarrow> 'r \<times> 'h option \<Rightarrow> 'r \<times> 'h option" where
  "rebuild os c sp (Key vals subs) rh =
     (case RegCreateKeyExW os (close_reg os (fst rh) (snd rh)) c sp of
        (h', reg') \<Rightarrow>
          fold (\<lambda>x. rebuild os c (Some (sub_path sp (fst x))) (snd x)) subs
            (fold (\<lambda>v r. RegSetValueExW os r h' (value_name_of (fst v)) (fst (snd v)) (snd (snd v)))
               vals reg', h'))"


definition key_name_ok :: "wstr \<Rightarrow> bool" where
  \<comment> \<open>the name of a subkey that the export hands on: no NUL, CR or LF, and short enough
      for the buffer of \<^verbatim>\<open>MAX_SUBKEY_LEN\<close> characters\<close>
  "key_name_ok n \<longleftrightarrow> 0 \<notin> set n \<and> 0x0d \<notin> set n \<and> 0x0a \<notin> set n \<and> length n < MAX_SUBKEY_LEN"

definition path_ok :: "wstr option \<Rightarrow> bool" where
  "path_ok sp \<longleftrightarrow> (case sp of None \<Rightarrow> True | Some s \<Rightarrow> 0 \<notin> set s \<and> 0x0d \<notin> set s \<and> 0x0a \<notin> set s)"

fun tree_ok :: "reg_key \<Rightarrow> bool" where
  "tree_ok (Key vals subs) \<longleftrightarrow>
     list_all value_ok vals \<and> distinct (map fst subs)
     \<and> (\<forall>x\<in>set subs. key_name_ok (fst x) \<and> tree_ok (snd x))"

lemma class_name_chars:
  "0 \<notin> set (class_name c)" "0x0d \<notin> set (class_name c)" "0x0a \<notin> set (class_name c)"
  by (cases c; simp add: W_def)+

lemma key_path_chars:
  assumes "path_ok sp"
  shows "0 \<notin> set (key_path c sp)" "\<forall>x\<in>set (key_path c sp). not_eol x"
  using assms class_name_chars [of c]
  by (auto simp: key_path_def path_ok_def not_eol_def split: option.splits)

lemma path_ok_sub: "path_ok sp \<Longrightarrow> key_name_ok n \<Longrightarrow> path_ok (Some (sub_path sp n))"
  by (auto simp: path_ok_def key_name_ok_def sub_path_def split: option.splits)

lemma build_subkey_path_key_path:
  assumes "path_ok sp" "key_name_ok n"
  shows "build_subkey_path (key_path c sp) n = key_path c (Some (sub_path sp n))"
proof -
  have "cstr (key_path c sp) = key_path c sp" using key_path_chars(1) [OF assms(1)] by (rule cstr_id)
  moreover have "cstr n = n" using assms(2) by (intro cstr_id) (simp add: key_name_ok_def)
  ultimately show ?thesis
    by (simp add: build_subkey_path_def key_path_def sub_path_def split: option.splits)
qed

lemma export_key_name_key_path:
  assumes "path_ok sp"
  shows "export_key_name (key_path c sp) = 0x0d # 0x0a # 0x5b # key_path c sp @ [0x5d, 0x0d, 0x0a]"
  using cstr_id [OF key_path_chars(1) [OF assms]] by (simp add: export_key_name_def)

lemma key_header:
  fixes os :: "('r, 'h) winapi"
  assumes "at_line_start p reg h (export_key_name (key_path c sp) @ R)" "path_ok sp"
    and "RegCreateKeyExW os (close_reg os reg h) c sp = (h', reg')"
  shows "\<exists>p'. parser_main_loop os p (Some q) = parser_main_loop os p' (Some [])
            \<and> at_line_start p' reg' h' R"
proof -
  have a: "at_line_start p reg h (0x0d # 0x0a # 0x5b # key_path c sp @ 0x5d # 0x0d # 0x0a # R)"
    using assms(1) by (simp add: export_key_name_key_path [OF assms(2)])
  obtain p1 where 1: "parser_main_loop os p (Some q) = parser_main_loop os p1 (Some [])"
      "at_line_start p1 reg h (0x5b # key_path c sp @ 0x5d # 0x0d # 0x0a # R)"
    using blank_line [OF a] by blast
  obtain p' where "parser_main_loop os p1 (Some []) = parser_main_loop os p' (Some [])"
      "at_line_start p' reg' h' R"
    using key_line [OF 1(2) key_path_chars(2) [OF assms(2)] assms(3)] by blast
  then show ?thesis using 1(1) by (intro exI [of _ p']) simp
qed

lemma export_binary_loop_no_NUL: "0 \<notin> set (export_binary_loop bs c)"
proof (induction bs c rule: export_binary_loop.induct)
  case (2 b column)
  obtain c1 c2 where c: "fmt_02x b = [c1, c2]" using fmt_02x_two by blast
  then show ?case using fmt_02x_chars [OF c] by simp
next
  case (3 b b' bs column)
  obtain c1 c2 where c: "fmt_02x b = [c1, c2]" using fmt_02x_two by blast
  then show ?case using fmt_02x_chars [OF c] 3 by (simp add: hex_concat_def)
qed simp

lemma value_text_no_NUL:
  fixes os :: "('r, 'h) winapi"
  assumes ok: "value_ok (name, ty, d)"
  shows "0 \<notin> set (concat (export_value os True stale (name, ty, d)))"
proof -
  let ?N = "concat (fst (export_value_name name))"
  note N = name_part_no_NUL [of name]
  consider (str) "ty = REG_SZ" "string_data d" | (bin) "ty = REG_SZ" "\<not> string_data d"
    | (dw) "ty = REG_DWORD" | (hex) "ty \<noteq> REG_SZ" "ty \<noteq> REG_DWORD" by blast
  then show ?thesis
  proof cases
    case str
    have "concat (export_value os True stale (name, ty, d))
        = ?N @ 0x22 # REGPROC_export_string (cstr (bytes_wstr d)) @ [0x22, 0x0d, 0x0a]"
      using str by (simp add: export_value_sz export_hkey_def string_data_def)
    then show ?thesis using N export_string_no_NUL [OF cstr_no_NUL [of "bytes_wstr d"]] by simp
  next
    case bin
    have "export_value os True stale (name, ty, d)
        = fst (export_value_name name) @ [REGPROC_export_binary os 0 REG_SZ d True]"
      using bin by (auto simp: export_value_sz export_hkey_def string_data_def)
    moreover have "REGPROC_export_binary os 0 REG_SZ d True
        = hex_prefix REG_SZ @ export_binary_loop d (0 + length (hex_prefix REG_SZ)) @ newline"
      by (simp add: REGPROC_export_binary_def hex_prefix_def Let_def)
    ultimately show ?thesis
      using N hex_prefix_chars(5) [of REG_SZ] export_binary_loop_no_NUL by (simp add: newline_def)
  next
    case dw
    have x: "\<forall>c\<in>set (fmt_08x v). c \<noteq> 0" for v
      using fmt_08x_digits(2) [of v] hexdig_not_special(4)
      by (simp only: fmt_08x_digits(1) hexdigits_def) auto
    have "concat (export_value os True stale (name, ty, d))
        = ?N @ W ''dword:'' @ fmt_08x (dword_of_bytes (map (data_buffer d stale) [0, 1, 2, 3])) @ [0x0d, 0x0a]"
      using dw by (simp add: export_value_other export_data_def export_dword_data_def newline_def)
    then show ?thesis using N x [of "dword_of_bytes (map (data_buffer d stale) [0, 1, 2, 3])"] by (auto simp: W_def)
  next
    case hex
    define n where "n = snd (export_value_name name)"
    have ne: "d \<noteq> []" using ok hex by (simp add: value_ok_def)
    obtain w r where e: "export_hex_data os ty n d True = (w, r)"
      by (cases "export_hex_data os ty n d True")
    have "concat w @ r = hex_prefix ty @ export_binary_loop d (n + length (hex_prefix ty))"
      using export_hex_data_text [of d True ty os d n] e ne by simp
    then have "concat (export_value os True stale (name, ty, d))
        = ?N @ hex_prefix ty @ export_binary_loop d (n + length (hex_prefix ty)) @ [0x0d, 0x0a]"
      using hex e by (simp add: export_value_other export_data_def n_def newline_def)
    then show ?thesis using N hex_prefix_chars(5) [of ty] export_binary_loop_no_NUL by simp
  qed
qed

lemma values_text_no_NUL:
  fixes os :: "('r, 'h) winapi"
  shows "list_all value_ok vs \<Longrightarrow> 0 \<notin> set (concat (values_text os True buf vs))"
proof (induction vs arbitrary: buf)
  case (Cons v vs)
  obtain name ty d where v: "v = (name, ty, d)" by (cases v)
  show ?case using Cons value_text_no_NUL [of name ty d os buf] by (simp add: v)
qed simp

definition replays ::
  "('r, 'h) winapi \<Rightarrow> written \<Rightarrow> ('r \<times> 'h option \<Rightarrow> 'r \<times> 'h option) \<Rightarrow> bool" where
  \<comment> \<open>reading the written text, between two values, takes the registry and the open
      key through \<open>f\<close>\<close>
  "replays os w f \<longleftrightarrow>
     0 \<notin> set (concat w)
     \<and> (\<forall>p reg h R q. at_line_start p reg h (concat w @ R) \<longrightarrow>
          (\<exists>p'. parser_main_loop os p (Some q) = parser_main_loop os p' (Some [])
                \<and> at_line_start p' (fst (f (reg, h))) (snd (f (reg, h))) R))"

lemma replays_nil: "replays os [] (\<lambda>rh. rh)"
  unfolding replays_def using line_start_pos by (auto simp: at_line_start_def)

lemma replays_append:
  fixes os :: "('r, 'h) winapi"
  assumes "replays os w1 f" "replays os w2 g"
  shows "replays os (w1 @ w2) (\<lambda>rh. g (f rh))"
  unfolding replays_def
proof (intro conjI allI impI)
  show "0 \<notin> set (concat (w1 @ w2))" using assms by (simp add: replays_def)
next
  fix p :: "('r, 'h) parser" and reg h R q
  assume "at_line_start p reg h (concat (w1 @ w2) @ R)"
  then have "at_line_start p reg h (concat w1 @ (concat w2 @ R))" by simp
  then obtain p1 where 1: "parser_main_loop os p (Some q) = parser_main_loop os p1 (Some [])"
      "at_line_start p1 (fst (f (reg, h))) (snd (f (reg, h))) (concat w2 @ R)"
    using assms(1) unfolding replays_def by blast
  obtain p' where 2: "parser_main_loop os p1 (Some []) = parser_main_loop os p' (Some [])"
      "at_line_start p' (fst (g (fst (f (reg, h)), snd (f (reg, h)))))
         (snd (g (fst (f (reg, h)), snd (f (reg, h))))) R"
    using assms(2) 1(2) unfolding replays_def by blast
  show "\<exists>p'. parser_main_loop os p (Some q) = parser_main_loop os p' (Some [])
           \<and> at_line_start p' (fst (g (f (reg, h)))) (snd (g (f (reg, h)))) R"
    using 1(1) 2 by (intro exI [of _ p']) simp
qed

lemma replays_header:
  fixes os :: "('r, 'h) winapi"
  assumes "path_ok sp"
  shows "replays os [export_key_name (key_path c sp)]
     (\<lambda>rh. case RegCreateKeyExW os (close_reg os (fst rh) (snd rh)) c sp of (h', reg') \<Rightarrow> (reg', h'))"
  unfolding replays_def
proof (intro conjI allI impI)
  show "0 \<notin> set (concat [export_key_name (key_path c sp)])"
    using key_path_chars(1) [OF assms, of c] by (simp add: export_key_name_key_path [OF assms])
next
  fix p :: "('r, 'h) parser" and reg and h :: "'h option" and R q
  assume a: "at_line_start p reg h (concat [export_key_name (key_path c sp)] @ R)"
  obtain h' reg' where c: "RegCreateKeyExW os (close_reg os reg h) c sp = (h', reg')"
    by (cases "RegCreateKeyExW os (close_reg os reg h) c sp")
  from a have "at_line_start p reg h (export_key_name (key_path c sp) @ R)" by simp
  from key_header [OF this assms c, of q]
  show "\<exists>p'. parser_main_loop os p (Some q) = parser_main_loop os p' (Some [])
      \<and> at_line_start p'
          (fst (case RegCreateKeyExW os (close_reg os (fst (reg, h)) (snd (reg, h))) c sp of
                  (h', reg') \<Rightarrow> (reg', h')))
          (snd (case RegCreateKeyExW os (close_reg os (fst (reg, h)) (snd (reg, h))) c sp of
                  (h', reg') \<Rightarrow> (reg', h'))) R"
    by (simp add: c)
qed

lemma replays_values:
  fixes os :: "('r, 'h) winapi"
  assumes "list_all value_ok vs"
  shows "replays os (values_text os True buf vs)
     (\<lambda>rh. (fold (\<lambda>v r. RegSetValueExW os r (snd rh) (value_name_of (fst v)) (fst (snd v)) (snd (snd v)))
                 vs (fst rh), snd rh))"
  unfolding replays_def
proof (intro conjI allI impI)
  show "0 \<notin> set (concat (values_text os True buf vs))" using values_text_no_NUL [OF assms] .
next
  fix p :: "('r, 'h) parser" and reg and h :: "'h option" and R q
  assume a: "at_line_start p reg h (concat (values_text os True buf vs) @ R)"
  from values_lines [OF a assms, of q]
  show "\<exists>p'. parser_main_loop os p (Some q) = parser_main_loop os p' (Some [])
      \<and> at_line_start p'
          (fst (fold (\<lambda>v r. RegSetValueExW os r (snd (reg, h)) (value_name_of (fst v)) (fst (snd v)) (snd (snd v)))
                 vs (fst (reg, h)), snd (reg, h)))
          (snd (fold (\<lambda>v r. RegSetValueExW os r (snd (reg, h)) (value_name_of (fst v)) (fst (snd v)) (snd (snd v)))
                 vs (fst (reg, h)), snd (reg, h))) R"
    by simp
qed

lemma subkeys_loop_replays:
  fixes os :: "('r, 'h) winapi"
  assumes sp: "path_ok sp" and d: "distinct (map fst subs)"
    and n: "\<forall>x\<in>set subs. key_name_ok (fst x)"
    and IH: "\<forall>x\<in>set subs. \<exists>w.
        export_registry_data os True (snd x) (key_path c (Some (sub_path sp (fst x)))) = Some w
        \<and> replays os w (rebuild os c (Some (sub_path sp (fst x))) (snd x))"
  shows "\<exists>ws. export_subkeys_loop os True (Key vals subs) (key_path c sp) i fp = Some (fp @ ws)
     \<and> replays os ws (fold (\<lambda>x. rebuild os c (Some (sub_path sp (fst x))) (snd x)) (drop i subs))"
proof (induction "length subs - i" arbitrary: i fp)
  case 0
  then have "RegEnumKeyExW (Key vals subs) i MAX_SUBKEY_LEN = Key_no_more"
    by (simp add: RegEnumKeyExW_def)
  then have "export_subkeys_loop os True (Key vals subs) (key_path c sp) i fp = Some (fp @ [])"
    by (subst export_subkeys_loop.simps) simp
  moreover have "drop i subs = []" using 0 by simp
  ultimately show ?case using replays_nil [of os] by (intro exI [of _ "[]"]) (simp add: id_def)
next
  case (Suc m)
  then have i: "i < length subs" by simp
  define x where "x = subs ! i"
  have x: "x \<in> set subs" using i by (simp add: x_def)
  have nm: "key_name_ok (fst x)" using n x by blast
  have e: "RegEnumKeyExW (Key vals subs) i MAX_SUBKEY_LEN = Key_success (fst x)"
    using i nm by (simp add: RegEnumKeyExW_def x_def key_name_ok_def)
  have "map_of subs (fst x) = Some (snd x)"
    using d x by (intro map_of_is_SomeI) simp_all
  then have o: "RegOpenKeyExW (Key vals subs) (fst x) = Some (snd x)"
    by (simp add: RegOpenKeyExW_def)
  obtain w where w: "export_registry_data os True (snd x) (key_path c (Some (sub_path sp (fst x)))) = Some w"
      "replays os w (rebuild os c (Some (sub_path sp (fst x))) (snd x))"
    using IH x by blast
  have b: "build_subkey_path (key_path c sp) (fst x) = key_path c (Some (sub_path sp (fst x)))"
    using build_subkey_path_key_path [OF sp nm] .
  have "m = length subs - (i + 1)" using Suc(2) by simp
  from Suc(1) [OF this, of "fp @ w"]
  obtain ws where ws: "export_subkeys_loop os True (Key vals subs) (key_path c sp) (i + 1) (fp @ w)
        = Some ((fp @ w) @ ws)"
      "replays os ws (fold (\<lambda>x. rebuild os c (Some (sub_path sp (fst x))) (snd x)) (drop (i + 1) subs))"
    by blast
  have 1: "export_subkeys_loop os True (Key vals subs) (key_path c sp) i fp = Some (fp @ (w @ ws))"
    using ws(1) by (subst export_subkeys_loop.simps) (simp add: e o b w(1))
  have dr: "drop i subs = x # drop (i + 1) subs"
    using i by (simp add: x_def Cons_nth_drop_Suc)
  have "replays os (w @ ws) (\<lambda>rh. fold (\<lambda>x. rebuild os c (Some (sub_path sp (fst x))) (snd x))
           (drop (i + 1) subs) (rebuild os c (Some (sub_path sp (fst x))) (snd x) rh))"
    using replays_append [OF w(2) ws(2)] .
  moreover have "(\<lambda>rh. fold (\<lambda>x. rebuild os c (Some (sub_path sp (fst x))) (snd x))
           (drop (i + 1) subs) (rebuild os c (Some (sub_path sp (fst x))) (snd x) rh))
       = fold (\<lambda>x. rebuild os c (Some (sub_path sp (fst x))) (snd x)) (drop i subs)"
    by (simp only: dr fold_simps) (simp add: fun_eq_iff)
  ultimately show ?case using 1 by (intro exI [of _ "w @ ws"]) simp
qed

lemma tree_replays:
  fixes os :: "('r, 'h) winapi"
  shows "tree_ok k \<Longrightarrow> path_ok sp \<Longrightarrow>
     \<exists>w. export_registry_data os True k (key_path c sp) = Some w \<and> replays os w (rebuild os c sp k)"
proof (induction k arbitrary: sp)
  case (Key vals subs)
  have v: "list_all value_ok vals" and d: "distinct (map fst subs)"
    and n: "\<forall>x\<in>set subs. key_name_ok (fst x)" and t: "\<forall>x\<in>set subs. tree_ok (snd x)"
    using Key(2) by simp_all
  have IH: "\<forall>x\<in>set subs. \<exists>w.
        export_registry_data os True (snd x) (key_path c (Some (sub_path sp (fst x)))) = Some w
        \<and> replays os w (rebuild os c (Some (sub_path sp (fst x))) (snd x))"
  proof
    fix x assume x: "x \<in> set subs"
    have "snd x \<in> Basic_BNFs.snds x" by (cases x) simp
    from Key(1) [OF x this, of "Some (sub_path sp (fst x))"] t x n path_ok_sub [OF Key(3)]
    show "\<exists>w. export_registry_data os True (snd x) (key_path c (Some (sub_path sp (fst x)))) = Some w
        \<and> replays os w (rebuild os c (Some (sub_path sp (fst x))) (snd x))"
      by blast
  qed
  define fp where "fp = [export_key_name (key_path c sp)] @ values_text os True (uninit_data os) vals"
  have 1: "export_values_loop os True (Key vals subs) 0 256 2048 (uninit_data os)
             [export_key_name (key_path c sp)] = Some fp"
    using export_values_loop_text [of 256 2048 os True "Key vals subs" 0 "uninit_data os"]
    by (simp add: fp_def)
  obtain ws where ws: "export_subkeys_loop os True (Key vals subs) (key_path c sp) 0 fp = Some (fp @ ws)"
      "replays os ws (fold (\<lambda>x. rebuild os c (Some (sub_path sp (fst x))) (snd x)) (drop 0 subs))"
    using subkeys_loop_replays [OF Key(3) d n IH, of vals 0 fp] by blast
  have 2: "export_registry_data os True (Key vals subs) (key_path c sp) = Some (fp @ ws)"
    by (subst export_registry_data.simps) (simp add: 1 ws(1))
  have "replays os fp (\<lambda>rh.
      (\<lambda>rh. (fold (\<lambda>v r. RegSetValueExW os r (snd rh) (value_name_of (fst v)) (fst (snd v)) (snd (snd v)))
                 vals (fst rh), snd rh))
        ((\<lambda>rh. case RegCreateKeyExW os (close_reg os (fst rh) (snd rh)) c sp of (h', reg') \<Rightarrow> (reg', h')) rh))"
    unfolding fp_def by (rule replays_append [OF replays_header [OF Key(3)] replays_values [OF v]])
  from replays_append [OF this ws(2)]
  have "replays os (fp @ ws) (\<lambda>rh. fold (\<lambda>x. rebuild os c (Some (sub_path sp (fst x))) (snd x)) subs
      (case RegCreateKeyExW os (close_reg os (fst rh) (snd rh)) c sp of (h', reg') \<Rightarrow>
         (fold (\<lambda>v r. RegSetValueExW os r h' (value_name_of (fst v)) (fst (snd v)) (snd (snd v))) vals reg', h')))"
    by (simp add: case_prod_beta)
  moreover have "(\<lambda>rh. fold (\<lambda>x. rebuild os c (Some (sub_path sp (fst x))) (snd x)) subs
      (case RegCreateKeyExW os (close_reg os (fst rh) (snd rh)) c sp of (h', reg') \<Rightarrow>
         (fold (\<lambda>v r. RegSetValueExW os r h' (value_name_of (fst v)) (fst (snd v)) (snd (snd v))) vals reg', h')))
     = rebuild os c sp (Key vals subs)"
    by (simp add: fun_eq_iff case_prod_beta)
  ultimately have "replays os (fp @ ws) (rebuild os c sp (Key vals subs))" by (simp only:)
  then show ?case using 2 by blast
qed

section \<open>The type tag of a value (claim C7)\<close>

text \<open>
  C7. \<^verbatim>\<open>parse_data_type\<close> on \<^verbatim>\<open>hex(7):01,02\<close> succeeds with data type 7 and parse
  type \<^verbatim>\<open>REG_BINARY\<close>, and leaves the line at \<^verbatim>\<open>01,02\<close>; on \<^verbatim>\<open>hex(zz):\<close> it fails. This
  holds for every parser; nothing else of the parser changes.
\<close>

theorem parse_data_type_hex_tag:
  "parse_data_type p (W ''hex(7):01,02'')
     = (True, p\<lparr>parse_type := REG_BINARY, data_type := 7\<rparr>, W ''01,02'')
   \<and> fst (parse_data_type p (W ''hex(zz):'')) = False"
  by (simp add: parse_data_type_def data_types_def W_def tolowerW_def strtoul16_def
      isspaceW_def isxdigitW_def xdigit_val_def Let_def)

section \<open>The continuation backslash of a hex list (claim C4)\<close>

text \<open>
  C4, as the spec states it: a token \<^verbatim>\<open>0\<close>, white space, then a backslash is the
  continuation mark, and no zero byte is stored. The code does otherwise: the test
  \<^verbatim>\<open>s == end && wc == 0\<close> holds when \<^verbatim>\<open>strtoulW\<close> found no digit at all. On \<^verbatim>\<open>0 \\<close>
  the digit is converted, the zero byte is stored, and the backslash behind the white
  space makes the conversion fail.
\<close>

theorem hex_zero_token_counterexample:
  "convert_hex_csv_to_hex sample_parser (W ''0 '' @ [0x5c])
     = (False, sample_parser\<lparr>data := [0]\<rparr>, W ''0 '' @ [0x5c])"
  by (simp add: convert_hex_csv_to_hex_def W_def sample_parser_def parser_init_def
      hex_csv_loop_zero_backslash [of "[0x20]" "[]", simplified blank_def, simplified])

text \<open>
  C4, amended: where the next byte is due and there is no hexadecimal digit but, after
  white space or none, a backslash, the conversion succeeds with \<^verbatim>\<open>backslash\<close> set and
  \<^verbatim>\<open>*str\<close> behind the backslash, and nothing is added to the data read so far
  (\<open>d\<close> in the loop, \<open>data p\<close> for a whole line). A digit \<^verbatim>\<open>0\<close> in front of the white
  space is a byte of its own: it is stored, and the conversion fails at the backslash.
\<close>

theorem hex_csv_continuation_mark:
  assumes "\<forall>c\<in>set ws. blank c"
  shows "hex_csv_loop (ws @ 0x5c # rest) d str
           = \<lparr>hex_ok = True, hex_data = d, hex_backslash = True, hex_str = rest, hex_erange = False\<rparr>
       \<and> convert_hex_csv_to_hex p (ws @ 0x5c # rest) = (True, p\<lparr>backslash := True\<rparr>, rest)
       \<and> hex_csv_loop (0x30 # ws @ 0x5c # rest) d str
           = \<lparr>hex_ok = False, hex_data = d @ [0], hex_backslash = False, hex_str = str,
              hex_erange = False\<rparr>
       \<and> fst (convert_hex_csv_to_hex p (0x30 # ws @ 0x5c # rest)) = False"
  by (simp add: convert_hex_csv_to_hex_def hex_csv_loop_backslash [OF assms]
      hex_csv_loop_zero_backslash [OF assms])

theorem hex_csv_continuation_mark_witness:
  "blank 0x20
   \<and> hex_csv_loop (W '' '' @ [0x5c]) [1, 2] (W '' '' @ [0x5c])
        = \<lparr>hex_ok = True, hex_data = [1, 2], hex_backslash = True, hex_str = [], hex_erange = False\<rparr>
   \<and> hex_csv_loop (W ''0 '' @ [0x5c]) [1, 2] (W '' '' @ [0x5c])
        = \<lparr>hex_ok = False, hex_data = [1, 2, 0], hex_backslash = False, hex_str = W '' '' @ [0x5c],
           hex_erange = False\<rparr>
   \<and> fst (convert_hex_csv_to_hex sample_parser (W '' '' @ [0x5c])) = True"
  using hex_csv_continuation_mark [where ws = "[0x20]" and rest = "[]" and d = "[1, 2]"
      and str = "W '' '' @ [0x5c]" and p = sample_parser]
  by (simp add: blank_def W_def)

section \<open>Values with no digits and no bytes (claims C9 and C10)\<close>

text \<open>
  C9, as stated: a value line \<^verbatim>\<open>dword:\<close> with no digit, followed by white space and/or a
  comment, sets a \<^verbatim>\<open>REG_DWORD\<close> 0. With white space alone this is not so: the state
  \<^verbatim>\<open>DATA_START\<close> trims it, \<^verbatim>\<open>convert_hex_to_dword\<close> gets the empty string and fails on
  its test \<^verbatim>\<open>if (!*str) goto error\<close>, and the machine is back at \<^verbatim>\<open>LINE_START\<close> with the
  registry untouched.
\<close>

theorem dword_blank_counterexample:
  "convert_hex_to_dword [] = None
   \<and> parser_steps 3 recording (sample_parser\<lparr>state := DATA_START\<rparr>) (Some (W ''=dword:  ''))
       = Inr (sample_parser\<lparr>parse_type := REG_DWORD, data_type := REG_DWORD, state := LINE_START\<rparr>, Some [])"
  by code_simp


text \<open>
  C9, amended: when \<^verbatim>\<open>dword:\<close> is followed by no digit, then white space or none, and
  then a comment starting with \<^verbatim>\<open>;\<close>, the four states \<^verbatim>\<open>DATA_START\<close>, \<^verbatim>\<open>DATA_TYPE\<close>,
  \<^verbatim>\<open>DWORD_DATA\<close> and \<^verbatim>\<open>SET_VALUE\<close> set the pending value name on the current key to a
  \<^verbatim>\<open>REG_DWORD\<close> of four zero bytes and hand over to the next line.
\<close>

theorem dword_comment_sets_zero:
  assumes "\<forall>c\<in>set b1. blank c" "\<forall>c\<in>set b2. blank c" "\<forall>c\<in>set ws. blank c"
    and "state p = DATA_START"
  shows "parser_steps 4 os p (Some (b1 @ 0x3d # b2 @ W ''dword:'' @ ws @ 0x3b # c))
     = Inr (p\<lparr>parse_type := REG_DWORD, data_type := REG_DWORD, data := [],
             registry := RegSetValueExW os (registry p) (hkey p) (value_name p) REG_DWORD [0, 0, 0, 0],
             state := (if reg_version p = Some REG_VERSION_31 then PARSE_WIN31_LINE else LINE_START)\<rparr>,
            Some ws)"
proof -
  let ?c = "rev (dropWhile blank (rev c))"
  let ?d = "W ''dword:'' @ ws @ 0x3b # ?c"
  let ?p1 = "set_state p DATA_TYPE"
  let ?p2 = "set_state (?p1\<lparr>parse_type := REG_DWORD, data_type := REG_DWORD\<rparr>) DWORD_DATA"
  let ?p3 = "set_state (?p2\<lparr>data := [0, 0, 0, 0]\<rparr>) SET_VALUE"
  have 1: "data_start_state os p (b1 @ 0x3d # b2 @ W ''dword:'' @ ws @ 0x3b # c) = Inr (?p1, Some ?d)"
    using data_start_state_data [OF assms(1,2), where x = "0x64" and r = "W ''word:'' @ ws @ 0x3b # c" and os = os and p = p]
      trim_blanks_stop [where x = "0x3b" and xs = "W ''dword:'' @ ws" and c = c]
    by (simp add: W_def blank_def)
  have 2: "data_type_state os ?p1 ?d = Inr (?p2, Some (ws @ 0x3b # ?c))"
    by (simp add: data_type_state_def parse_data_type_dword)
  have 3: "dword_data_state os ?p2 (ws @ 0x3b # ?c) = Inr (?p3, Some ws)"
    by (simp add: dword_data_state_def convert_hex_to_dword_comment [OF assms(3)] dword_bytes_def)
  have "parser_steps 4 os p (Some (b1 @ 0x3d # b2 @ W ''dword:'' @ ws @ 0x3b # c))
      = parser_steps 3 os ?p1 (Some ?d)"
    using parser_steps_Suc [of p os _ ?p1 "Some ?d" 3] 1 assms(4) by (simp add: eval_nat_numeral)
  also have "\<dots> = parser_steps 2 os ?p2 (Some (ws @ 0x3b # ?c))"
    using parser_steps_Suc [of ?p1 os _ ?p2 _ 2] 2 by (simp add: eval_nat_numeral)
  also have "\<dots> = parser_steps 1 os ?p3 (Some ws)"
    using parser_steps_Suc [of ?p2 os _ ?p3 _ 1] 3 by (simp add: eval_nat_numeral)
  also have "\<dots> = Inr (p\<lparr>parse_type := REG_DWORD, data_type := REG_DWORD, data := [],
             registry := RegSetValueExW os (registry p) (hkey p) (value_name p) REG_DWORD [0, 0, 0, 0],
             state := (if reg_version p = Some REG_VERSION_31 then PARSE_WIN31_LINE else LINE_START)\<rparr>,
            Some ws)"
    by (simp add: set_state_def set_value_state_def free_parser_data_def Let_def)
  finally show ?thesis .
qed

theorem dword_comment_sets_zero_witness:
  "state (sample_parser\<lparr>state := DATA_START\<rparr>) = DATA_START
   \<and> parser_steps 4 recording (sample_parser\<lparr>state := DATA_START\<rparr>) (Some (W ''=dword: ;x''))
       = Inr (sample_parser\<lparr>parse_type := REG_DWORD, data_type := REG_DWORD,
                registry := [Set_value None None REG_DWORD [0, 0, 0, 0]], state := LINE_START\<rparr>,
              Some (W '' ''))"
  using dword_comment_sets_zero [where ?b1.0 = "[]" and ?b2.0 = "[]" and ws = "W '' ''" and c = "W ''x''"
      and os = recording and p = "sample_parser\<lparr>state := DATA_START\<rparr>"]
  by (simp add: W_def blank_def sample_parser_def parser_init_def recording_def)

text \<open>
  C10. For a parser that holds no data, as at the start of every value line, the data
  portion \<^verbatim>\<open>hex:\<close> with nothing behind it but white space is accepted:
  \<^verbatim>\<open>convert_hex_csv_to_hex\<close> succeeds on the empty list with no data, and \<^verbatim>\<open>SET_VALUE\<close>
  sets a \<^verbatim>\<open>REG_BINARY\<close> value of length 0 under the pending name on the current key.
\<close>

theorem hex_empty_list_sets_value:
  assumes "\<forall>c\<in>set b1. blank c" "\<forall>c\<in>set b2. blank c" "\<forall>c\<in>set b3. blank c"
    and "state p = DATA_START" and "data p = []"
  shows "fst (convert_hex_csv_to_hex p []) = True \<and> data (fst (snd (convert_hex_csv_to_hex p []))) = []
   \<and> parser_steps 4 os p (Some (b1 @ 0x3d # b2 @ W ''hex:'' @ b3))
     = Inr (p\<lparr>parse_type := REG_BINARY, data_type := REG_BINARY, backslash := False,
             registry := RegSetValueExW os (registry p) (hkey p) (value_name p) REG_BINARY [],
             state := (if reg_version p = Some REG_VERSION_31 then PARSE_WIN31_LINE else LINE_START)\<rparr>,
            Some [])"
proof -
  let ?p1 = "set_state p DATA_TYPE"
  let ?p2 = "set_state (?p1\<lparr>parse_type := REG_BINARY, data_type := REG_BINARY\<rparr>) HEX_DATA"
  let ?p3 = "set_state (?p2\<lparr>backslash := False\<rparr>) SET_VALUE"
  have 1: "data_start_state os p (b1 @ 0x3d # b2 @ W ''hex:'' @ b3) = Inr (?p1, Some (W ''hex:''))"
    by (rule data_start_state_trailing [OF assms(1-3)]) (simp_all add: W_def blank_def)
  have 2: "data_type_state os ?p1 (W ''hex:'') = Inr (?p2, Some [])"
    using parse_data_type_hex [of ?p1 "[]"] by (simp add: data_type_state_def)
  have 3: "hex_data_state os ?p2 [] = Inr (?p3, Some [])"
    using assms(5)
    by (simp add: hex_data_state_def convert_hex_csv_to_hex_def hex_csv_loop_Nil
        prepare_hex_string_data_def set_state_def)
  have "parser_steps 4 os p (Some (b1 @ 0x3d # b2 @ W ''hex:'' @ b3)) = parser_steps 3 os ?p1 (Some (W ''hex:''))"
    using parser_steps_Suc [of p os _ ?p1 _ 3] 1 assms(4) by (simp add: eval_nat_numeral)
  also have "\<dots> = parser_steps 2 os ?p2 (Some [])"
    using parser_steps_Suc [of ?p1 os _ ?p2 _ 2] 2 by (simp add: eval_nat_numeral)
  also have "\<dots> = parser_steps 1 os ?p3 (Some [])"
    using parser_steps_Suc [of ?p2 os _ ?p3 _ 1] 3 by (simp add: eval_nat_numeral)
  also have "\<dots> = Inr (p\<lparr>parse_type := REG_BINARY, data_type := REG_BINARY, backslash := False,
             registry := RegSetValueExW os (registry p) (hkey p) (value_name p) REG_BINARY [],
             state := (if reg_version p = Some REG_VERSION_31 then PARSE_WIN31_LINE else LINE_START)\<rparr>,
            Some [])"
    using assms(5) by (simp add: set_state_def set_value_state_def free_parser_data_def Let_def)
  finally show ?thesis
    using assms(5) by (simp add: convert_hex_csv_to_hex_def hex_csv_loop_Nil)
qed


theorem hex_empty_list_sets_value_witness:
  "state (sample_parser\<lparr>state := DATA_START\<rparr>) = DATA_START
   \<and> data (sample_parser\<lparr>state := DATA_START\<rparr>) = []
   \<and> parser_steps 4 recording (sample_parser\<lparr>state := DATA_START\<rparr>) (Some (W ''=hex:''))
       = Inr (sample_parser\<lparr>parse_type := REG_BINARY, data_type := REG_BINARY,
                registry := [Set_value None None REG_BINARY []], state := LINE_START\<rparr>,
              Some [])"
  using hex_empty_list_sets_value [where ?b1.0 = "[]" and ?b2.0 = "[]" and ?b3.0 = "[]"
      and os = recording and p = "sample_parser\<lparr>state := DATA_START\<rparr>"]
  by (simp add: W_def sample_parser_def parser_init_def recording_def)

section \<open>String data in hex form (claim C5)\<close>




section \<open>The header line (claim C2)\<close>

text \<open>
  C2. Let \<open>s\<close> be the header line of the file without its leading blanks and tabs. If
  \<open>s\<close> begins with \<^verbatim>\<open>REGEDIT\<close> and is neither \<^verbatim>\<open>REGEDIT\<close> nor \<^verbatim>\<open>REGEDIT4\<close> (the version 5
  header does not begin so), the import returns \<^verbatim>\<open>TRUE\<close>; if \<open>s\<close> does not begin with
  \<^verbatim>\<open>REGEDIT\<close> and is not the version 5 header, it returns \<^verbatim>\<open>FALSE\<close>. In both cases the
  registry is returned as it was, whatever the registry calls would do: none is made.
\<close>

theorem import_header_fuzzy_or_invalid:
  assumes "2 \<le> length bytes"
  shows "(let s = dropWhile blank (header_line os bytes) in
          (take 7 s = W ''REGEDIT'' \<and> s \<noteq> W ''REGEDIT'' \<and> s \<noteq> W ''REGEDIT4''
             \<longrightarrow> import_registry_file os reg (Some bytes) = Some (Inr (True, reg)))
        \<and> (take 7 s \<noteq> W ''REGEDIT'' \<and> s \<noteq> W ''Windows Registry Editor Version 5.00''
             \<longrightarrow> import_registry_file os reg (Some bytes) = Some (Inr (False, reg))))"
proof -
  let ?s = "dropWhile blank (header_line os bytes)"
  have fuzzy: "parse_file_header (header_line os bytes) = REG_VERSION_FUZZY"
    if "take 7 ?s = W ''REGEDIT''" "?s \<noteq> W ''REGEDIT''" "?s \<noteq> W ''REGEDIT4''"
  proof -
    have "?s \<noteq> W ''Windows Registry Editor Version 5.00''"
      using that(1) by (auto simp: W_def)
    then show ?thesis using that by (simp add: parse_file_header_def)
  qed
  have invalid: "parse_file_header (header_line os bytes) = REG_VERSION_INVALID"
    if "take 7 ?s \<noteq> W ''REGEDIT''" "?s \<noteq> W ''Windows Registry Editor Version 5.00''"
  proof -
    have "?s \<noteq> W ''REGEDIT''" "?s \<noteq> W ''REGEDIT4''"
      using that(1) by (auto simp: W_def)
    then show ?thesis using that by (simp add: parse_file_header_def)
  qed
  show ?thesis
    using import_header [OF assms fuzzy, of reg] import_header [OF assms invalid, of reg]
    by (simp add: Let_def)
qed


theorem import_header_fuzzy_or_invalid_witness:
  "import_registry_file recording []
      (Some (A ''REGEDIT9'' @ [13, 10] @ A ''[HKEY_CURRENT_USER]'' @ [13, 10] @ A ''@=dword:00000001''))
     = Some (Inr (True, []))
   \<and> import_registry_file recording []
      (Some (A ''NOTAREGFILE'' @ [13, 10] @ A ''[HKEY_CURRENT_USER]'' @ [13, 10] @ A ''@=dword:00000001''))
     = Some (Inr (False, []))"
proof -
  let ?f1 = "A ''REGEDIT9'' @ [13, 10] @ A ''[HKEY_CURRENT_USER]'' @ [13, 10] @ A ''@=dword:00000001''"
  let ?f2 = "A ''NOTAREGFILE'' @ [13, 10] @ A ''[HKEY_CURRENT_USER]'' @ [13, 10] @ A ''@=dword:00000001''"
  have 1: "dropWhile blank (header_line recording ?f1) = W ''REGEDIT9''"
    by code_simp
  have 2: "dropWhile blank (header_line recording ?f2) = W ''NOTAREGFILE''"
    by code_simp
  show ?thesis
    using 1 2 import_header_fuzzy_or_invalid [of ?f1 recording "[]"]
      import_header_fuzzy_or_invalid [of ?f2 recording "[]"]
    by (simp add: Let_def W_def A_def)
qed

section \<open>Errors that are not local to a line (claim C3)\<close>

text \<open>
  C3 says that after a valid header no line aborts the import, a \<^verbatim>\<open>[-path]\<close> line with
  an invalid root or an empty subkey path included. \<^verbatim>\<open>delete_key_state\<close> calls
  \<^verbatim>\<open>delete_registry_key\<close>, the routine of the command line, which ends the process with
  \<^verbatim>\<open>error_exit\<close> for a path that names no root class or names a root class and an empty
  subkey, and which reads through \<^verbatim>\<open>key_name\<close>, a \<^verbatim>\<open>NULL\<close> pointer, for a root class with
  no backslash behind it. Its own comment promises that such a name is ignored. The three
  runs, on files in the wide encoding, for every registry:
\<close>

theorem delete_key_line_halts:
  "import_registry_file os reg
     (Some ([0xff, 0xfe] @ wstr_bytes (W ''Windows Registry Editor Version 5.00'' @ [13, 10]
                                        @ W ''[-HKEY_CURRENT_USER]'' @ [13, 10])))
     = Some (Inl Null_deref)
   \<and> import_registry_file os reg
     (Some ([0xff, 0xfe] @ wstr_bytes (W ''Windows Registry Editor Version 5.00'' @ [13, 10]
                                        @ W ''[-HKEY_CURRENT_USER'' @ [0x5c] @ W '']'' @ [13, 10])))
     = Some (Inl Error_exit)
   \<and> import_registry_file os reg
     (Some ([0xff, 0xfe] @ wstr_bytes (W ''Windows Registry Editor Version 5.00'' @ [13, 10]
                                        @ W ''[-Hello]'' @ [13, 10])))
     = Some (Inl Error_exit)"
proof -
  have "case import_registry_file os reg
     (Some ([0xff, 0xfe] @ wstr_bytes (W ''Windows Registry Editor Version 5.00'' @ [13, 10]
                                        @ W ''[-HKEY_CURRENT_USER]'' @ [13, 10]))) of
      Some (Inl h) \<Rightarrow> h = Null_deref | _ \<Rightarrow> False"
    by code_simp
  moreover have "case import_registry_file os reg
     (Some ([0xff, 0xfe] @ wstr_bytes (W ''Windows Registry Editor Version 5.00'' @ [13, 10]
                                        @ W ''[-HKEY_CURRENT_USER'' @ [0x5c] @ W '']'' @ [13, 10]))) of
      Some (Inl h) \<Rightarrow> h = Error_exit | _ \<Rightarrow> False"
    by code_simp
  moreover have "case import_registry_file os reg
     (Some ([0xff, 0xfe] @ wstr_bytes (W ''Windows Registry Editor Version 5.00'' @ [13, 10]
                                        @ W ''[-Hello]'' @ [13, 10]))) of
      Some (Inl h) \<Rightarrow> h = Error_exit | _ \<Rightarrow> False"
    by code_simp
  ultimately show ?thesis by (auto split: option.splits sum.splits)
qed

section \<open>How a value is rendered (claim C6)\<close>




section \<open>The width of the lines of a hex list (claim C8)\<close>




end
